theory Spec2Isabelle
  imports Main "HOL-Library.Multiset"
begin

section \<open>JavaScript values and raw records\<close>

text \<open>
  The upstream services answer with JSON objects whose fields are loosely typed. A field
  value is one of the scalar JavaScript values below; numbers are the integers (the
  upstream timestamps are integral epoch values, far below \<open>2 ^ 53\<close>, where the
  arithmetic of the source is exact). A raw record is an object: reading a field that is
  not there gives \<open>undefined\<close>.
\<close>

datatype jsval = JUndefined | JNull | JBool bool | JNum int | JStr string

type_synonym rawrec = "string \<rightharpoonup> jsval"

definition getf :: "rawrec \<Rightarrow> string \<Rightarrow> jsval" where
  \<comment> \<open>the property read \<open>x.k\<close>\<close>
  "getf x k = (case x k of None \<Rightarrow> JUndefined | Some v \<Rightarrow> v)"

fun truthy :: "jsval \<Rightarrow> bool" where
  \<comment> \<open>JavaScript truthiness: \<open>!c\<close> is \<open>\<not> truthy c\<close>\<close>
  "truthy JUndefined = False"
| "truthy JNull = False"
| "truthy (JBool b) = b"
| "truthy (JNum n) = (n \<noteq> 0)"
| "truthy (JStr s) = (s \<noteq> [])"

definition js_or :: "jsval \<Rightarrow> jsval \<Rightarrow> jsval" where
  \<comment> \<open>\<open>a || b\<close>\<close>
  "js_or a b = (if truthy a then a else b)"

section \<open>Strings: number rendering and URI encoding\<close>

text \<open>
  Strings are byte strings (UTF-8). A template literal renders a value with the engine's
  \<open>ToString\<close>; an integer is rendered in decimal.
\<close>

definition digit_char :: "nat \<Rightarrow> char" where
  "digit_char d = ''0123456789'' ! d"

fun show_nat :: "nat \<Rightarrow> string" where
  "show_nat n = (if n < 10 then [digit_char n] else show_nat (n div 10) @ [digit_char (n mod 10)])"

declare show_nat.simps [simp del]

definition show_int :: "int \<Rightarrow> string" where
  "show_int i = (if i < 0 then CHR ''-'' # show_nat (nat (- i)) else show_nat (nat i))"

fun js_string :: "jsval \<Rightarrow> string" where
  \<comment> \<open>\<open>ToString\<close>, as a template literal \<open>${v}\<close> applies it\<close>
  "js_string JUndefined = ''undefined''"
| "js_string JNull = ''null''"
| "js_string (JBool b) = (if b then ''true'' else ''false'')"
| "js_string (JNum n) = show_int n"
| "js_string (JStr s) = s"

definition uri_unreserved :: "char \<Rightarrow> bool" where
  \<comment> \<open>the characters \<open>encodeURIComponent\<close> leaves alone: letters, digits and \<open>- _ . ! ~ * ' ( )\<close>\<close>
  "uri_unreserved c \<longleftrightarrow>
     c \<in> set (''ABCDEFGHIJKLMNOPQRSTUVWXYZabcdefghijklmnopqrstuvwxyz0123456789-_.!~*()'' @ [CHR 0x27])"

definition hex_char :: "nat \<Rightarrow> char" where
  "hex_char d = ''0123456789ABCDEF'' ! d"

definition percent_byte :: "char \<Rightarrow> string" where
  "percent_byte c = [CHR ''%'', hex_char (of_char c div 16), hex_char (of_char c mod 16)]"

definition encodeURIComponent :: "string \<Rightarrow> string" where
  "encodeURIComponent s = concat (map (\<lambda>c. if uri_unreserved c then [c] else percent_byte c) s)"

section \<open>Configuration and the poster URL builders\<close>

text \<open>
  The configuration is read once from the environment; a variable that is not set is
  \<open>undefined\<close> (\<open>None\<close>). The three server files use their own part of it.
\<close>

record env =
  TAUTULLI_URL :: "string option"
  TAUTULLI_KEY :: "string option"
  PLEX_URL :: "string option"
  PLEX_TOKEN :: "string option"

definition env_truthy :: "string option \<Rightarrow> bool" where
  "env_truthy v \<longleftrightarrow> (case v of None \<Rightarrow> False | Some s \<Rightarrow> s \<noteq> [])"

definition env_string :: "string option \<Rightarrow> string" where
  \<comment> \<open>\<open>${V}\<close> for an environment value\<close>
  "env_string v = (case v of None \<Rightarrow> ''undefined'' | Some s \<Rightarrow> s)"

definition hasTautulliEnv :: "env \<Rightarrow> bool" where
  "hasTautulliEnv e \<longleftrightarrow> env_truthy (TAUTULLI_URL e) \<and> env_truthy (TAUTULLI_KEY e)"

definition hasPlexEnv :: "env \<Rightarrow> bool" where
  "hasPlexEnv e \<longleftrightarrow> env_truthy (PLEX_URL e) \<and> env_truthy (PLEX_TOKEN e)"

datatype error = TypeError

fun opt_startsWith :: "jsval \<Rightarrow> string \<Rightarrow> error + bool" where
  \<comment> \<open>\<open>v?.startsWith(p)\<close> as a condition: a nullish \<open>v\<close> gives \<open>undefined\<close> (falsy), a
      string is tested, any other value has no \<open>startsWith\<close> and the call throws\<close>
  "opt_startsWith JUndefined p = Inr False"
| "opt_startsWith JNull p = Inr False"
| "opt_startsWith (JStr s) p = Inr (take (length p) s = p)"
| "opt_startsWith (JBool b) p = Inl TypeError"
| "opt_startsWith (JNum n) p = Inl TypeError"

definition posterFromTautulli :: "env \<Rightarrow> rawrec \<Rightarrow> error + string option" where
  \<comment> \<open>the Tautulli server file\<close>
  "posterFromTautulli e raw =
     (if \<not> hasTautulliEnv e then Inr None
      else (case opt_startsWith (getf raw ''thumb_url'') ''http'' of
          Inl err \<Rightarrow> Inl err
        | Inr True \<Rightarrow>
            Inr (Some (''/api/media/img?u='' @ encodeURIComponent (js_string (getf raw ''thumb_url''))))
        | Inr False \<Rightarrow>
            (case opt_startsWith (getf raw ''thumb'') ''/'' of
               Inl err \<Rightarrow> Inl err
             | Inr True \<Rightarrow>
                 (let u = env_string (TAUTULLI_URL e) @ ''/pms/image?url=''
                        @ encodeURIComponent (js_string (getf raw ''thumb''))
                        @ ''&width=300&height=450&fallback=poster&apikey=''
                        @ env_string (TAUTULLI_KEY e)
                  in Inr (Some (''/api/media/img?u='' @ encodeURIComponent u)))
             | Inr False \<Rightarrow> Inr None)))"

definition posterFromTautulli_plex :: "env \<Rightarrow> rawrec \<Rightarrow> error + string option" where
  \<comment> \<open>the function of the same name in the Tautulli + Plex server file\<close>
  "posterFromTautulli_plex e raw =
     (if \<not> hasPlexEnv e then Inr None
      else (case opt_startsWith (getf raw ''thumb_url'') ''http'' of
          Inl err \<Rightarrow> Inl err
        | Inr True \<Rightarrow>
            Inr (Some (''/api/media/img?u='' @ encodeURIComponent (js_string (getf raw ''thumb_url''))))
        | Inr False \<Rightarrow>
            (case opt_startsWith (getf raw ''thumb'') ''/'' of
               Inl err \<Rightarrow> Inl err
             | Inr True \<Rightarrow>
                 (let plexUrl = env_string (PLEX_URL e) @ js_string (getf raw ''thumb'')
                        @ ''?width=300&height=450&X-Plex-Token='' @ env_string (PLEX_TOKEN e)
                  in Inr (Some (''/api/media/img?u='' @ encodeURIComponent plexUrl)))
             | Inr False \<Rightarrow> Inr None)))"

text \<open>
  The Jellyfin file has its own configuration. An item carries its \<open>Id\<close> (here
  \<open>Id_field\<close>) and, when present, the object \<open>ImageTags\<close>.
\<close>

record jellyfin_env =
  JELLYFIN_URL :: "string option"
  JELLYFIN_TOKEN :: "string option"
  JELLYFIN_USER_ID :: "string option"

definition hasJellyfinEnv :: "jellyfin_env \<Rightarrow> bool" where
  "hasJellyfinEnv e \<longleftrightarrow>
     env_truthy (JELLYFIN_URL e) \<and> env_truthy (JELLYFIN_TOKEN e) \<and> env_truthy (JELLYFIN_USER_ID e)"

record jellyfin_item =
  Id_field :: jsval
  ImageTags :: "rawrec option"

definition posterFromJellyfin :: "jellyfin_env \<Rightarrow> jellyfin_item \<Rightarrow> string option" where
  "posterFromJellyfin e item =
     (if \<not> hasJellyfinEnv e then None
      else (let tags = (case ImageTags item of None \<Rightarrow> Map.empty | Some t \<Rightarrow> t);
                imageId = js_or (getf tags ''Primary'') (getf tags ''Thumb'')
            in if truthy imageId \<and> truthy (Id_field item)
               then (let jellyfinUrl = env_string (JELLYFIN_URL e) @ ''/Items/'' @ js_string (Id_field item)
                           @ ''/Images/Primary?height=450&width=300&quality=96&tag=''
                           @ js_string imageId
                     in Some (''/api/media/img?u='' @ encodeURIComponent jellyfinUrl @ ''&auth=jellyfin''))
               else None))"

definition sample_env :: "string \<Rightarrow> env" where
  \<comment> \<open>a configured deployment whose two credentials are both the given string\<close>
  "sample_env secret =
     \<lparr>TAUTULLI_URL = Some ''http://t:8181'', TAUTULLI_KEY = Some secret,
      PLEX_URL = Some ''http://p:32400'', PLEX_TOKEN = Some secret\<rparr>"

section \<open>The timestamp extractor \<open>getWatchedAt\<close>\<close>

text \<open>
  \<open>Date.parse\<close> belongs to the JavaScript engine, not to the repository: it is a
  parameter \<open>parse\<close> of the model, from the argument (a number is turned into its
  decimal string by the engine) to the epoch milliseconds, \<open>None\<close> standing for
  \<open>NaN\<close>.
\<close>

definition candidate_fields :: "string list" where
  "candidate_fields =
     [''viewed_at'', ''date'', ''started'', ''time'', ''last_played'',
      ''played_at'', ''event_time'']"

fun epoch_number :: "jsval \<Rightarrow> int option" where
  \<comment> \<open>the two \<open>typeof c === 'number'\<close> returns of the loop body, in source order\<close>
  "epoch_number (JNum c) =
     (if c > 100000 \<and> c < 9999999999 then Some (c * 1000)
      else if c \<ge> 9999999999 then Some c
      else None)"
| "epoch_number _ = None"

fun getWatchedAt_loop :: "(jsval \<Rightarrow> int option) \<Rightarrow> jsval list \<Rightarrow> int option" where
  "getWatchedAt_loop parse [] = None"
| "getWatchedAt_loop parse (c # cs) =
     (if \<not> truthy c then getWatchedAt_loop parse cs
      else (case epoch_number c of
              Some t \<Rightarrow> Some t
            | None \<Rightarrow>
                (case parse c of
                   Some t \<Rightarrow> Some t
                 | None \<Rightarrow> getWatchedAt_loop parse cs)))"

definition getWatchedAt :: "(jsval \<Rightarrow> int option) \<Rightarrow> rawrec \<Rightarrow> int option" where
  "getWatchedAt parse x = getWatchedAt_loop parse (map (getf x) candidate_fields)"

definition passed_over :: "(jsval \<Rightarrow> int option) \<Rightarrow> jsval \<Rightarrow> bool" where
  \<comment> \<open>the loop goes on to the next candidate: \<open>continue\<close>, or nothing returned\<close>
  "passed_over parse c \<longleftrightarrow> \<not> truthy c \<or> (epoch_number c = None \<and> parse c = None)"

definition Date_parse_iso_sample :: "jsval \<Rightarrow> int option" where
  \<comment> \<open>a \<open>Date.parse\<close> for the concrete evaluations below: it reads two ISO strings, whose
      values ECMAScript fixes, and answers \<open>NaN\<close> to everything else\<close>
  "Date_parse_iso_sample v =
     (if v = JStr ''1970-01-01T00:00:00.000Z'' then Some 0
      else if v = JStr ''1969-12-31T00:00:00.000Z'' then Some (- 86400000)
      else None)"

section \<open>List assembly: recently watched and recently added (Tautulli + Plex file)\<close>

text \<open>
  The handlers build one item per raw record, stop as soon as \<open>limit\<close> items are
  collected, and sort what they collected. The model starts at the record list \<open>list\<close>
  (after the upstream fetch) and ends at the \<open>items\<close> of the payload; \<open>limit\<close> is the
  number the handler read from the query, an integer. A poster builder that throws ends the request
  without a payload.
\<close>

record item_fields =
  title :: jsval
  grandparent_title :: jsval
  year :: jsval
  media_type :: jsval
  poster :: "string option"

record watched_item = item_fields +
  watched_at :: "int option"

record added_item = item_fields +
  added_at :: jsval

definition poster_or :: "error + string option \<Rightarrow> error + string option \<Rightarrow> error + string option" where
  \<comment> \<open>\<open>a || b\<close> on poster results: \<open>b\<close> is evaluated only when \<open>a\<close> returned a falsy value\<close>
  "poster_or a b =
     (case a of
        Inl err \<Rightarrow> Inl err
      | Inr None \<Rightarrow> b
      | Inr (Some p) \<Rightarrow> (if p \<noteq> [] then Inr (Some p) else b))"

definition watched_entry :: "(jsval \<Rightarrow> int option) \<Rightarrow> env \<Rightarrow> rawrec \<Rightarrow> error + watched_item" where
  "watched_entry parse e x =
     (let ttl = js_or (getf x ''title'') (js_or (getf x ''full_title'')
                    (js_or (getf x ''media_title'') (js_or (getf x ''grandparent_title'') (JStr ''Unknown''))));
          gp = js_or (getf x ''grandparent_title'') JNull;
          t = getWatchedAt parse x
      in (case poster_or (posterFromTautulli_plex e x)
                 (posterFromTautulli_plex e
                    [''thumb_url'' \<mapsto> getf x ''thumb_url'', ''thumb'' \<mapsto> getf x ''thumb'']) of
            Inl err \<Rightarrow> Inl err
          | Inr pst \<Rightarrow>
              Inr \<lparr>title = ttl, grandparent_title = gp, year = js_or (getf x ''year'') JNull,
                   media_type = js_or (getf x ''media_type'') (js_or (getf x ''section_type'') (JStr [])),
                   poster = pst, watched_at = t\<rparr>))"

fun watched_loop ::
  "(jsval \<Rightarrow> int option) \<Rightarrow> env \<Rightarrow> int \<Rightarrow> rawrec list \<Rightarrow> watched_item list \<Rightarrow> error + watched_item list"
where
  "watched_loop parse e limit [] items = Inr items"
| "watched_loop parse e limit (x # xs) items =
     (case watched_entry parse e x of
        Inl err \<Rightarrow> Inl err
      | Inr it \<Rightarrow>
          (let items' = items @ [it]
           in if int (length items') \<ge> limit then Inr items'
              else watched_loop parse e limit xs items'))"

definition watched_key :: "watched_item \<Rightarrow> int" where
  \<comment> \<open>\<open>(a.watched_at || 0)\<close>\<close>
  "watched_key a = (case watched_at a of None \<Rightarrow> 0 | Some t \<Rightarrow> t)"

text \<open>
  \<open>items.sort((a, b) => key b - key a)\<close>: the comparator is a consistent order on integer
  keys, and \<open>Array.prototype.sort\<close> is stable, so the result is the stable sort by
  descending key.
\<close>

definition recently_watched_items ::
  "(jsval \<Rightarrow> int option) \<Rightarrow> env \<Rightarrow> int \<Rightarrow> rawrec list \<Rightarrow> error + watched_item list"
where
  "recently_watched_items parse e limit list =
     (case watched_loop parse e limit list [] of
        Inl err \<Rightarrow> Inl err
      | Inr items \<Rightarrow> Inr (sort_key (\<lambda>a. - watched_key a) items))"

text \<open>
  Recently added. \<open>parseInt\<close> is the engine's (\<open>None\<close> for \<open>NaN\<close>), and \<open>now\<close> is the
  reading of \<open>Date.now()\<close> taken for this record.
\<close>

definition added_at_of :: "(string \<Rightarrow> int option) \<Rightarrow> int \<Rightarrow> jsval \<Rightarrow> jsval" where
  "added_at_of parseInt now a =
     (let added =
            (case a of
               JStr s \<Rightarrow> map_option (\<lambda>n. JNum (n * 1000)) (parseInt s)
             | JNum n \<Rightarrow> Some (if n < 9999999999 then JNum (n * 1000) else JNum n)
             | v \<Rightarrow> Some v)
      in (case added of
            None \<Rightarrow> JNum now
          | Some v \<Rightarrow> (if \<not> truthy v then JNum now else v)))"

definition em_dash :: string where
  \<comment> \<open>U+2014 in UTF-8\<close>
  "em_dash = [CHR 0xE2, CHR 0x80, CHR 0x94]"

definition added_entry :: "(string \<Rightarrow> int option) \<Rightarrow> int \<Rightarrow> env \<Rightarrow> rawrec \<Rightarrow> error + added_item" where
  "added_entry parseInt now e x =
     (let displayTitle =
            (if getf x ''media_type'' = JStr ''season'' \<and> truthy (getf x ''parent_title'')
             then JStr (js_string (getf x ''parent_title'') @ '' '' @ em_dash @ '' ''
                        @ js_string (getf x ''title''))
             else if getf x ''media_type'' = JStr ''movie''
             then js_or (getf x ''title'') (js_or (getf x ''original_title'') (JStr ''Unknown Movie''))
             else js_or (getf x ''title'') (js_or (getf x ''parent_title'')
                    (js_or (getf x ''full_title'') (JStr ''Unknown''))));
          gp = js_or (getf x ''parent_title'') (js_or (getf x ''grandparent_title'') JNull);
          added = added_at_of parseInt now (getf x ''added_at'')
      in (case poster_or (posterFromTautulli_plex e [''thumb'' \<mapsto> getf x ''thumb''])
                 (posterFromTautulli_plex e [''thumb'' \<mapsto> getf x ''parent_thumb'']) of
            Inl err \<Rightarrow> Inl err
          | Inr pst \<Rightarrow>
              Inr \<lparr>title = displayTitle, grandparent_title = gp, year = js_or (getf x ''year'') JNull,
                   media_type = js_or (getf x ''media_type'') (JStr []),
                   poster = pst, added_at = added\<rparr>))"

fun added_loop ::
  "(string \<Rightarrow> int option) \<Rightarrow> (nat \<Rightarrow> int) \<Rightarrow> env \<Rightarrow> int \<Rightarrow> nat \<Rightarrow> rawrec list \<Rightarrow> added_item list
     \<Rightarrow> error + added_item list"
where
  \<comment> \<open>\<open>i\<close> is the index of the next record, \<open>clock i\<close> the time read while it is processed\<close>
  "added_loop parseInt clock e limit i [] items = Inr items"
| "added_loop parseInt clock e limit i (x # xs) items =
     (case added_entry parseInt (clock i) e x of
        Inl err \<Rightarrow> Inl err
      | Inr it \<Rightarrow>
          (let items' = items @ [it]
           in if int (length items') \<ge> limit then Inr items'
              else added_loop parseInt clock e limit (Suc i) xs items'))"

fun added_key :: "jsval \<Rightarrow> int" where
  \<comment> \<open>the number \<open>(v || 0)\<close> contributes to the comparator's subtraction; \<open>added_at\<close> is a
      non-zero number or \<open>true\<close> (lemma \<open>added_at_of_cases\<close>), never a string\<close>
  "added_key (JNum n) = n"
| "added_key (JBool b) = (if b then 1 else 0)"
| "added_key JUndefined = 0"
| "added_key JNull = 0"
| "added_key (JStr s) = 0"

definition recently_added_items ::
  "(string \<Rightarrow> int option) \<Rightarrow> (nat \<Rightarrow> int) \<Rightarrow> env \<Rightarrow> int \<Rightarrow> rawrec list \<Rightarrow> error + added_item list"
where
  "recently_added_items parseInt clock e limit list =
     (case added_loop parseInt clock e limit 0 list [] of
        Inl err \<Rightarrow> Inl err
      | Inr items \<Rightarrow> Inr (sort_key (\<lambda>a. - added_key (added_at a)) items))"

definition thumbs_typed :: "string list \<Rightarrow> rawrec \<Rightarrow> bool" where
  \<comment> \<open>the named image fields are strings or missing, as the upstream sends them\<close>
  "thumbs_typed fs x \<longleftrightarrow>
     (\<forall>f \<in> set fs. (case getf x f of JBool b \<Rightarrow> False | JNum n \<Rightarrow> False | _ \<Rightarrow> True))"

definition parseInt_digits :: "string \<Rightarrow> int option" where
  \<comment> \<open>a \<open>parseInt\<close> for the concrete evaluations below: it reads two strings of digits and
      answers \<open>NaN\<close> to everything else\<close>
  "parseInt_digits s =
     (if s = ''1700000000'' then Some 1700000000
      else if s = ''1600000000'' then Some 1600000000
      else None)"

definition fixed_clock :: "int \<Rightarrow> nat \<Rightarrow> int" where
  \<comment> \<open>a clock that shows the same time at every reading\<close>
  "fixed_clock t i = t"

definition no_env :: env where
  \<comment> \<open>a deployment with nothing configured\<close>
  "no_env = \<lparr>TAUTULLI_URL = None, TAUTULLI_KEY = None, PLEX_URL = None, PLEX_TOKEN = None\<rparr>"

definition five_added :: "rawrec list" where
  \<comment> \<open>five records with distinct \<open>added_at\<close> (epoch seconds), oldest first\<close>
  "five_added =
     [[''title'' \<mapsto> JStr ''A'', ''added_at'' \<mapsto> JNum 1700000001],
      [''title'' \<mapsto> JStr ''B'', ''added_at'' \<mapsto> JNum 1700000002],
      [''title'' \<mapsto> JStr ''C'', ''added_at'' \<mapsto> JNum 1700000003],
      [''title'' \<mapsto> JStr ''D'', ''added_at'' \<mapsto> JNum 1700000004],
      [''title'' \<mapsto> JStr ''E'', ''added_at'' \<mapsto> JNum 1700000005]]"

definition five_watched :: "rawrec list" where
  \<comment> \<open>five history records with distinct \<open>date\<close> (epoch seconds), oldest first\<close>
  "five_watched =
     [[''title'' \<mapsto> JStr ''A'', ''date'' \<mapsto> JNum 1700000001],
      [''title'' \<mapsto> JStr ''B'', ''date'' \<mapsto> JNum 1700000002],
      [''title'' \<mapsto> JStr ''C'', ''date'' \<mapsto> JNum 1700000003],
      [''title'' \<mapsto> JStr ''D'', ''date'' \<mapsto> JNum 1700000004],
      [''title'' \<mapsto> JStr ''E'', ''date'' \<mapsto> JNum 1700000005]]"

definition untimed :: rawrec where
  \<comment> \<open>a record with a title and no timestamp field at all\<close>
  "untimed = [''title'' \<mapsto> JStr ''B'']"

definition watched_with_untimed :: "rawrec list" where
  "watched_with_untimed =
     [[''title'' \<mapsto> JStr ''A'', ''date'' \<mapsto> JNum 1700000001], untimed,
      [''title'' \<mapsto> JStr ''C'', ''date'' \<mapsto> JNum 1700000003]]"

definition added_with_untimed :: "rawrec list" where
  "added_with_untimed = [[''title'' \<mapsto> JStr ''A'', ''added_at'' \<mapsto> JStr ''1700000000''], untimed]"

definition watched_before_epoch :: "rawrec list" where
  "watched_before_epoch =
     [[''title'' \<mapsto> JStr ''A'', ''date'' \<mapsto> JStr ''1969-12-31T00:00:00.000Z''], untimed]"

section \<open>Time-bucket aggregators (Jellyfin file)\<close>

text \<open>
  What the aggregators read from their surroundings is the \<open>world\<close>: the wall clock
  (\<open>new Date()\<close>, \<open>Date.now()\<close>) and the local time zone of the process, through which
  \<open>getDay\<close> and \<open>getHours\<close> read a date. An event carries a valid \<open>Date\<close>
  (\<open>getPlaybackEvents\<close> filters the invalid ones out), given by its epoch milliseconds.
  A grid is an object from keys to counts.
\<close>

record world =
  clock :: int
  getDay :: "int \<Rightarrow> nat"
  getHours :: "int \<Rightarrow> nat"

record event =
  timestamp :: int

type_synonym grid = "string \<rightharpoonup> int"

definition days :: "string list" where
  "days = [''Mon'', ''Tue'', ''Wed'', ''Thu'', ''Fri'', ''Sat'', ''Sun'']"

definition timeBlocks :: "string list" where
  "timeBlocks = [''00-03'', ''03-06'', ''06-09'', ''09-12'', ''12-15'', ''15-18'', ''18-21'', ''21-24'']"

definition index_string :: "string list \<Rightarrow> nat \<Rightarrow> string" where
  \<comment> \<open>\<open>${xs[i]}\<close>: an index out of range reads \<open>undefined\<close>\<close>
  "index_string xs i = (if i < length xs then xs ! i else ''undefined'')"

definition weekly_empty :: grid where
  \<comment> \<open>the two nested loops that set every bucket to 0\<close>
  "weekly_empty =
     fold (\<lambda>day d. fold (\<lambda>block d'. d'(day @ ''_'' @ block \<mapsto> 0)) timeBlocks d) days Map.empty"

definition weekly_count :: "world \<Rightarrow> event \<Rightarrow> grid \<Rightarrow> grid" where
  \<comment> \<open>the body of the counting loop\<close>
  "weekly_count w ev d =
     (let date = timestamp ev;
          dayOfWeek = getDay w date;
          hour = getHours w date;
          dayIndex = (if dayOfWeek = 0 then 6 else dayOfWeek - 1);
          dayName = index_string days dayIndex;
          blockIndex = hour div 3;
          blockName = index_string timeBlocks blockIndex;
          key = dayName @ ''_'' @ blockName
      in (case d key of None \<Rightarrow> d | Some n \<Rightarrow> d(key \<mapsto> n + 1)))"

definition buildWeeklyActivityData :: "world \<Rightarrow> event list \<Rightarrow> grid" where
  "buildWeeklyActivityData w events = fold (weekly_count w) events weekly_empty"

definition day_key :: "int \<Rightarrow> string" where
  \<comment> \<open>\<open>`day_${i}`\<close>\<close>
  "day_key i = ''day_'' @ show_int i"

definition monthly_empty :: grid where
  "monthly_empty = fold (\<lambda>i d. d(day_key i \<mapsto> 0)) [1..30] Map.empty"

definition monthly_count :: "int \<Rightarrow> event \<Rightarrow> grid \<Rightarrow> grid" where
  \<comment> \<open>the body of the counting loop; \<open>now\<close> is the clock read at the head of the function\<close>
  "monthly_count now ev d =
     (let diffTime = now - timestamp ev;
          diffDays = diffTime div (1000 * 60 * 60 * 24)
      in if diffDays \<ge> 0 \<and> diffDays < 30
         then (let dayKey = day_key (30 - diffDays)
               in (case d dayKey of None \<Rightarrow> d | Some n \<Rightarrow> d(dayKey \<mapsto> n + 1)))
         else d)"

definition buildMonthlyActivityData :: "world \<Rightarrow> event list \<Rightarrow> grid" where
  "buildMonthlyActivityData w events = fold (monthly_count (clock w)) events monthly_empty"

definition weekly_keys :: "string set" where
  "weekly_keys = (\<lambda>(day, block). day @ ''_'' @ block) ` (set days \<times> set timeBlocks)"

definition monthly_keys :: "string set" where
  "monthly_keys = day_key ` {1..30}"

definition utc_world :: "int \<Rightarrow> world" where
  \<comment> \<open>a process in the UTC zone whose clock reads the given time (1970-01-01 was a Thursday)\<close>
  "utc_world t =
     \<lparr>clock = t,
      getDay = (\<lambda>ms. nat ((ms div 86400000 + 4) mod 7)),
      getHours = (\<lambda>ms. nat ((ms mod 86400000) div 3600000))\<rparr>"

section \<open>Monthly activity in the request handler (Tautulli + Plex file)\<close>

definition monthly_handler_count :: "(jsval \<Rightarrow> int option) \<Rightarrow> int \<Rightarrow> rawrec \<Rightarrow> grid \<Rightarrow> grid" where
  \<comment> \<open>the body of the loop over the history list; \<open>now\<close> is \<open>Date.now()\<close>, read once\<close>
  "monthly_handler_count parse now x monthData =
     (let monthAgo = now - (30 * 24 * 60 * 60 * 1000)
      in (case getWatchedAt parse x of
            None \<Rightarrow> monthData
          | Some t \<Rightarrow>
              (if t = 0 \<or> t < monthAgo then monthData
               else (let daysAgo = (now - t) div (24 * 60 * 60 * 1000)
                     in if daysAgo < 30
                        then (let dayKey = day_key (30 - daysAgo)
                              in monthData(dayKey \<mapsto>
                                   (case monthData dayKey of None \<Rightarrow> 0 | Some n \<Rightarrow> n) + 1))
                        else monthData))))"

definition activity_monthly_data :: "(jsval \<Rightarrow> int option) \<Rightarrow> int \<Rightarrow> rawrec list \<Rightarrow> grid" where
  \<comment> \<open>\<open>monthData\<close> of the payload, from the history list\<close>
  "activity_monthly_data parse now list =
     fold (monthly_handler_count parse now) list (fold (\<lambda>i d. d(day_key (i + 1) \<mapsto> 0)) [0..29] Map.empty)"

definition counted :: "(jsval \<Rightarrow> int option) \<Rightarrow> int \<Rightarrow> int \<Rightarrow> rawrec \<Rightarrow> bool" where
  \<comment> \<open>the record has a timestamp other than 0, and its age in whole days is \<open>30 - j\<close>\<close>
  "counted parse now j x \<longleftrightarrow>
     (case getWatchedAt parse x of
        None \<Rightarrow> False
      | Some t \<Rightarrow> t \<noteq> 0 \<and> (now - t) div 86400000 = 30 - j)"

section \<open>The image proxy handlers\<close>

text \<open>
  The upstream fetch is the network's: its outcome is a response with a status, or a
  rejection (a network error, or the abort at the timeout). The handler's answer is a
  JSON body with a status, a redirect, or the upstream body piped through with headers.
\<close>

datatype fetch_result =
    Response (status: nat) (statusText: string) (content_type: "string option")
  | Rejected (err_name: string) (err_message: string)

definition ok :: "fetch_result \<Rightarrow> bool" where
  \<comment> \<open>\<open>r.ok\<close>: the status is in the range 200-299\<close>
  "ok r \<longleftrightarrow> 200 \<le> status r \<and> status r \<le> 299"

datatype http_answer =
    Json nat "(string \<times> string) list"
  | Redirect string
  | Piped "(string \<times> string) list"

type_synonym fetcher = "string \<Rightarrow> (string \<times> string) list \<Rightarrow> fetch_result"

definition content_type_or_jpeg :: "fetch_result \<Rightarrow> string" where
  \<comment> \<open>\<open>r.headers.get('content-type') || 'image/jpeg'\<close>\<close>
  "content_type_or_jpeg r =
     (case content_type r of None \<Rightarrow> ''image/jpeg'' | Some c \<Rightarrow> (if c = [] then ''image/jpeg'' else c))"

definition img_jellyfin :: "string option \<Rightarrow> fetcher \<Rightarrow> string option \<Rightarrow> string option \<Rightarrow> http_answer" where
  \<comment> \<open>Jellyfin file: \<open>token\<close> is \<open>JELLYFIN_TOKEN\<close>, \<open>u\<close> and \<open>auth\<close> are the query parameters\<close>
  "img_jellyfin token fetch u auth =
     (case u of
        None \<Rightarrow> Json 400 [(''error'', ''missing u'')]
      | Some url \<Rightarrow>
          if url = [] then Json 400 [(''error'', ''missing u'')]
          else (let headers = [(''User-Agent'', ''media-proxy/1.0'')]
                      @ (if auth = Some ''jellyfin''
                         then [(''Authorization'', ''MediaBrowser Token=\"'' @ env_string token @ ''\"'')]
                         else [])
                in (case fetch url headers of
                      Rejected n m \<Rightarrow> Redirect ''/placeholder-poster.jpg''
                    | Response st txt ct \<Rightarrow>
                        if \<not> ok (Response st txt ct) then Redirect ''/placeholder-poster.jpg''
                        else Piped [(''Content-Type'', content_type_or_jpeg (Response st txt ct)),
                                    (''Cache-Control'', ''public, max-age=3600'')])))"

definition img_tautulli :: "int \<Rightarrow> fetcher \<Rightarrow> string option \<Rightarrow> http_answer" where
  \<comment> \<open>Tautulli file: \<open>timeout_ms\<close> is \<open>TIMEOUT_MS\<close>\<close>
  "img_tautulli timeout_ms fetch u =
     (case u of
        None \<Rightarrow> Json 400 [(''error'', ''missing u'')]
      | Some url \<Rightarrow>
          if url = [] then Json 400 [(''error'', ''missing u'')]
          else (case fetch url [] of
                  Rejected n m \<Rightarrow>
                    Json 500 [(''error'', if n = ''AbortError''
                                         then ''timeout after '' @ show_int timeout_ms @ ''ms'' else m)]
                | Response st txt ct \<Rightarrow>
                    if \<not> ok (Response st txt ct)
                    then Json 502 [(''error'', ''upstream '' @ show_int (int st))]
                    else Piped [(''Content-Type'', content_type_or_jpeg (Response st txt ct))]))"

definition img_plex :: "fetcher \<Rightarrow> string option \<Rightarrow> http_answer" where
  \<comment> \<open>Tautulli + Plex file\<close>
  "img_plex fetch u =
     (case u of
        None \<Rightarrow> Json 400 [(''error'', ''missing u'')]
      | Some url \<Rightarrow>
          if url = [] then Json 400 [(''error'', ''missing u'')]
          else (case fetch url [(''User-Agent'', ''media-proxy/1.0'')] of
                  Rejected n m \<Rightarrow> Redirect ''/placeholder-poster.jpg''
                | Response st txt ct \<Rightarrow>
                    if \<not> ok (Response st txt ct) then Redirect ''/placeholder-poster.jpg''
                    else Piped [(''Content-Type'', content_type_or_jpeg (Response st txt ct)),
                                (''Cache-Control'', ''public, max-age=3600'')]))"

definition upstream_404 :: fetcher where
  \<comment> \<open>an upstream that answers every request with 404\<close>
  "upstream_404 url headers = Response 404 ''Not Found'' None"

section \<open>The TTL cache\<close>

text \<open>
  The cache is a \<open>Map\<close> from keys to entries \<open>{data, t}\<close>, \<open>t\<close> being the expiry time.
  \<open>now\<close> is the reading of \<open>Date.now()\<close> at the call; \<open>getC\<close> answers \<open>null\<close>
  (\<open>None\<close>) on a miss; the optional argument \<open>ms\<close> of \<open>setC\<close> defaults to 10000.
\<close>

record 'd entry =
  entry_data :: 'd
  entry_t :: int

type_synonym 'd cache = "string \<rightharpoonup> 'd entry"

definition ttl :: "int \<Rightarrow> int \<Rightarrow> int" where
  \<comment> \<open>the \<open>t\<close> of \<open>ttl(ms)\<close>\<close>
  "ttl now ms = now + ms"

definition getC :: "int \<Rightarrow> 'd cache \<Rightarrow> string \<Rightarrow> 'd option" where
  "getC now cache k =
     (case cache k of
        None \<Rightarrow> None
      | Some v \<Rightarrow> (if entry_t v > now then Some (entry_data v) else None))"

definition setC :: "int \<Rightarrow> 'd cache \<Rightarrow> string \<Rightarrow> 'd \<Rightarrow> int option \<Rightarrow> 'd cache" where
  "setC now cache k d ms =
     cache(k \<mapsto> \<lparr>entry_data = d, entry_t = ttl now (case ms of None \<Rightarrow> 10000 | Some m \<Rightarrow> m)\<rparr>)"

section \<open>Properties of the timestamp extractor\<close>

lemma getWatchedAt_loop_passed:
  "\<forall>c \<in> set pre. passed_over parse c \<Longrightarrow>
   getWatchedAt_loop parse (pre @ cs) = getWatchedAt_loop parse cs"
  by (induction pre) (auto simp: passed_over_def)

lemma getf_upd: "getf (x(f \<mapsto> v)) g = (if g = f then v else getf x g)"
  by (simp add: getf_def)

lemma getf_del: "getf (x(f := None)) g = (if g = f then JUndefined else getf x g)"
  by (simp add: getf_def)

lemma getWatchedAt_loop_falsy_field:
  "\<not> truthy v \<Longrightarrow>
   getWatchedAt_loop parse (map (getf (x(f \<mapsto> v))) fs) =
   getWatchedAt_loop parse (map (getf (x(f := None))) fs)"
  by (induction fs) (auto simp: getf_upd getf_del split: option.splits)

lemma getWatchedAt_loop_all_falsy:
  "\<forall>c \<in> set cs. \<not> truthy c \<Longrightarrow> getWatchedAt_loop parse cs = None"
  by (induction cs) simp_all

text \<open>
  Claim C2, as amended. Let \<open>f\<close> be a candidate field whose value is the number \<open>v\<close>,
  every candidate before it being passed over (falsy, or neither an epoch number nor
  parsable). Then the extractor returns \<open>v * 1000\<close> when \<open>100000 < v < 9999999999\<close>
  (epoch seconds; the lower bound is strict) and \<open>v\<close> itself when \<open>v \<ge> 9999999999\<close>
  (epoch milliseconds).
\<close>

theorem getWatchedAt_epoch:
  assumes "candidate_fields = pre @ f # post"
    and "\<forall>g \<in> set pre. passed_over parse (getf x g)"
    and "getf x f = JNum v"
  shows "(100000 < v \<and> v < 9999999999 \<longrightarrow> getWatchedAt parse x = Some (v * 1000)) \<and>
         (9999999999 \<le> v \<longrightarrow> getWatchedAt parse x = Some v)"
proof -
  have split: "map (getf x) candidate_fields = map (getf x) pre @ JNum v # map (getf x) post"
    by (simp add: assms(1) assms(3))
  have skip: "\<forall>c \<in> set (map (getf x) pre). passed_over parse c"
    using assms(2) by simp
  have "getWatchedAt parse x = getWatchedAt_loop parse (JNum v # map (getf x) post)"
    unfolding getWatchedAt_def split by (rule getWatchedAt_loop_passed [OF skip])
  then show ?thesis by auto
qed

theorem getWatchedAt_epoch_witness:
  "getWatchedAt Date_parse_iso_sample [''date'' \<mapsto> JNum 1700000000] = Some 1700000000000 \<and>
   getWatchedAt Date_parse_iso_sample [''viewed_at'' \<mapsto> JStr ''n/a'', ''time'' \<mapsto> JNum 1700000000000]
     = Some 1700000000000"
proof -
  have a: "candidate_fields = [''viewed_at''] @ ''date'' # [''started'', ''time'', ''last_played'',
      ''played_at'', ''event_time'']"
    by (simp add: candidate_fields_def)
  have b: "candidate_fields = [''viewed_at'', ''date'', ''started''] @ ''time'' # [''last_played'',
      ''played_at'', ''event_time'']"
    by (simp add: candidate_fields_def)
  have pa: "\<forall>g \<in> set [''viewed_at'']. passed_over Date_parse_iso_sample
      (getf [''date'' \<mapsto> JNum 1700000000] g)"
    by (simp add: passed_over_def getf_def)
  have pb: "\<forall>g \<in> set [''viewed_at'', ''date'', ''started'']. passed_over Date_parse_iso_sample
      (getf [''viewed_at'' \<mapsto> JStr ''n/a'', ''time'' \<mapsto> JNum 1700000000000] g)"
    by (simp add: passed_over_def getf_def Date_parse_iso_sample_def)
  have va: "getf [''date'' \<mapsto> JNum 1700000000] ''date'' = JNum 1700000000"
    by (simp add: getf_def)
  have vb: "getf [''viewed_at'' \<mapsto> JStr ''n/a'', ''time'' \<mapsto> JNum 1700000000000] ''time''
      = JNum 1700000000000"
    by (simp add: getf_def)
  show ?thesis
    using getWatchedAt_epoch [OF a pa va] getWatchedAt_epoch [OF b pb vb] by simp
qed

text \<open>
  Claim C2 as stated includes \<open>v = 100000\<close> among the epoch seconds. The source tests
  \<open>c > 100000\<close>: at \<open>100000\<close> neither numeric branch returns and the value goes to
  \<open>Date.parse\<close>, whose answer is the result; with a parser that does not read it the
  record has no timestamp.
\<close>

theorem getWatchedAt_boundary_counterexample:
  "getWatchedAt Date_parse_iso_sample [''viewed_at'' \<mapsto> JNum 100000] \<noteq> Some (100000 * 1000) \<and>
   (\<forall>parse. getWatchedAt parse [''viewed_at'' \<mapsto> JNum 100000] = parse (JNum 100000))"
  by (simp add: getWatchedAt_def candidate_fields_def getf_def Date_parse_iso_sample_def
      split: option.splits)

text \<open>
  Claim C9. A candidate field holding a falsy value (the number 0, the empty string,
  null or false) is skipped as if the field were absent, and a record whose only candidate
  value is the number 0 has the timestamp null, whatever \<open>Date.parse\<close> does.
\<close>

theorem getWatchedAt_falsy_skipped:
  "(v \<in> {JNum 0, JStr [], JNull, JBool False} \<longrightarrow>
      getWatchedAt parse (x(f \<mapsto> v)) = getWatchedAt parse (x(f := None))) \<and>
   ((\<forall>g \<in> set candidate_fields. g \<noteq> f \<longrightarrow> x g = None) \<longrightarrow>
      getWatchedAt parse (x(f \<mapsto> JNum 0)) = None)"
proof (intro conjI impI)
  assume "v \<in> {JNum 0, JStr [], JNull, JBool False}"
  then have "\<not> truthy v" by auto
  then show "getWatchedAt parse (x(f \<mapsto> v)) = getWatchedAt parse (x(f := None))"
    unfolding getWatchedAt_def by (rule getWatchedAt_loop_falsy_field)
next
  assume absent: "\<forall>g \<in> set candidate_fields. g \<noteq> f \<longrightarrow> x g = None"
  have "\<forall>c \<in> set (map (getf (x(f \<mapsto> JNum 0))) candidate_fields). \<not> truthy c"
    using absent by (auto simp: getf_def)
  then show "getWatchedAt parse (x(f \<mapsto> JNum 0)) = None"
    unfolding getWatchedAt_def by (rule getWatchedAt_loop_all_falsy)
qed

theorem getWatchedAt_falsy_skipped_witness:
  "getWatchedAt Date_parse_iso_sample [''date'' \<mapsto> JNum 1700000000, ''viewed_at'' \<mapsto> JNum 0]
     = Some 1700000000000 \<and>
   getWatchedAt Date_parse_iso_sample [''date'' \<mapsto> JNum 0] = None"
proof -
  have m: "JNum 0 \<in> {JNum 0, JStr [], JNull, JBool False}" by simp
  have e: "\<forall>g \<in> set candidate_fields. g \<noteq> ''date'' \<longrightarrow> (Map.empty :: rawrec) g = None" by simp
  have r: "getWatchedAt Date_parse_iso_sample ([''date'' \<mapsto> JNum 1700000000](''viewed_at'' := None))
      = Some 1700000000000"
    by (simp add: getWatchedAt_def candidate_fields_def getf_def)
  show ?thesis
    using conjunct1 [OF getWatchedAt_falsy_skipped [of "JNum 0" Date_parse_iso_sample
        "[''date'' \<mapsto> JNum 1700000000]" "''viewed_at''"]]
      conjunct2 [OF getWatchedAt_falsy_skipped [of "JNum 0" Date_parse_iso_sample Map.empty "''date''"]]
      m e r
    by simp
qed

section \<open>The poster URL builders and the credential\<close>

text \<open>
  The Jellyfin builder only tags the URL with \<open>auth=jellyfin\<close>: between two configured
  deployments that differ in the token alone its result is the same.
\<close>

lemma posterFromJellyfin_token_free:
  assumes "env_truthy (JELLYFIN_TOKEN e)" and "env_truthy tok"
  shows "posterFromJellyfin (e\<lparr>JELLYFIN_TOKEN := tok\<rparr>) item = posterFromJellyfin e item"
  using assms by (simp add: posterFromJellyfin_def hasJellyfinEnv_def Let_def)

text \<open>
  Claim C1 says that the value returned by the poster builder never contains the
  credential and does not change with it. Both \<open>posterFromTautulli\<close> functions put the
  credential into the upstream URL that they wrap: for a record with a relative \<open>thumb\<close>
  path the returned string ends with the API key (Tautulli file) or the Plex token
  (Tautulli + Plex file), and changing the credential changes the returned value.
\<close>

theorem posterFromTautulli_embeds_credential:
  "posterFromTautulli (sample_env ''KEY123'') [''thumb'' \<mapsto> JStr ''/a''] =
     Inr (Some (''/api/media/img?u=http%3A%2F%2Ft%3A8181%2Fpms%2Fimage%3Furl%3D%252Fa%26width%3D300%26height%3D450%26fallback%3Dposter%26apikey%3D'' @ ''KEY123'')) \<and>
   posterFromTautulli_plex (sample_env ''KEY123'') [''thumb'' \<mapsto> JStr ''/a''] =
     Inr (Some (''/api/media/img?u=http%3A%2F%2Fp%3A32400%2Fa%3Fwidth%3D300%26height%3D450%26X-Plex-Token%3D'' @ ''KEY123'')) \<and>
   posterFromTautulli (sample_env ''KEY123'') [''thumb'' \<mapsto> JStr ''/a''] \<noteq>
     posterFromTautulli (sample_env ''KEY456'') [''thumb'' \<mapsto> JStr ''/a''] \<and>
   posterFromTautulli_plex (sample_env ''KEY123'') [''thumb'' \<mapsto> JStr ''/a''] \<noteq>
     posterFromTautulli_plex (sample_env ''KEY456'') [''thumb'' \<mapsto> JStr ''/a'']"
  by code_simp

section \<open>The TTL cache\<close>

text \<open>
  Claim C10. A read strictly less than \<open>ms\<close> milliseconds after \<open>setC k d ms\<close> returns
  exactly \<open>d\<close>; a read at or after the expiry returns null; a later \<open>setC\<close> on the same
  key replaces the earlier entry, so that every later read sees only the last write.
\<close>

theorem cache_read_after_write:
  "(now' < now + ms \<longrightarrow> getC now' (setC now c k d (Some ms)) k = Some d) \<and>
   (now + ms \<le> now' \<longrightarrow> getC now' (setC now c k d (Some ms)) k = None) \<and>
   setC now_b (setC now_a c k d_a ms_a) k d_b ms_b = setC now_b c k d_b ms_b"
  by (simp add: getC_def setC_def ttl_def)

theorem cache_read_after_write_witness:
  "getC 1014999 (setC 1000000 Map.empty ''watched-12'' ''payload'' (Some 15000)) ''watched-12''
     = Some ''payload'' \<and>
   getC 1015000 (setC 1000000 Map.empty ''watched-12'' ''payload'' (Some 15000)) ''watched-12''
     = None \<and>
   getC 1000001 (setC 1000000 (setC 999000 Map.empty ''k'' ''old'' None) ''k'' ''new'' None) ''k''
     = Some ''new''"
proof -
  note t = cache_read_after_write
  have a: "(1014999::int) < 1000000 + 15000" by simp
  have b: "(1000000::int) + 15000 \<le> 1015000" by simp
  have c: "getC 1000001 (setC 1000000 Map.empty ''k'' ''new'' None) ''k'' = Some ''new''"
    by (simp add: getC_def setC_def ttl_def)
  show ?thesis
    using t [where now' = 1014999 and now = 1000000 and ms = 15000 and c = Map.empty
          and k = "''watched-12''" and d = "''payload''"]
      t [where now' = 1015000 and now = 1000000 and ms = 15000 and c = Map.empty
          and k = "''watched-12''" and d = "''payload''"]
      t [where now_b = 1000000 and now_a = 999000 and c = Map.empty and k = "''k''"
          and d_a = "''old''" and d_b = "''new''" and ms_a = None and ms_b = None]
      a b c
    by simp
qed

section \<open>The image proxy\<close>

text \<open>
  Claim C8, as amended. In the Jellyfin file and in the Tautulli + Plex file, whenever
  the upstream fetch for a given \<open>u\<close> completes with a status outside 200-299, the
  handler answers with a redirect to the placeholder image.
\<close>

theorem img_redirects_on_upstream_failure:
  assumes "url \<noteq> []"
    and "\<forall>hs. \<exists>st txt ct. fetch url hs = Response st txt ct \<and> (st < 200 \<or> 299 < st)"
  shows "img_jellyfin token fetch (Some url) auth = Redirect ''/placeholder-poster.jpg'' \<and>
         img_plex fetch (Some url) = Redirect ''/placeholder-poster.jpg''"
proof -
  have j: "img_jellyfin token fetch (Some url) auth = Redirect ''/placeholder-poster.jpg''"
  proof -
    obtain st tx ct where
      "fetch url ([(''User-Agent'', ''media-proxy/1.0'')]
          @ (if auth = Some ''jellyfin''
             then [(''Authorization'', ''MediaBrowser Token=\"'' @ env_string token @ ''\"'')]
             else [])) = Response st tx ct" and "st < 200 \<or> 299 < st"
      using assms(2) by blast
    then show ?thesis
      using assms(1) by (auto simp: img_jellyfin_def ok_def)
  qed
  have p: "img_plex fetch (Some url) = Redirect ''/placeholder-poster.jpg''"
  proof -
    obtain st tx ct where
      "fetch url [(''User-Agent'', ''media-proxy/1.0'')] = Response st tx ct" and "st < 200 \<or> 299 < st"
      using assms(2) by blast
    then show ?thesis
      using assms(1) by (auto simp: img_plex_def ok_def)
  qed
  show ?thesis using j p by simp
qed

theorem img_redirects_on_upstream_failure_witness:
  "img_jellyfin (Some ''tok'') upstream_404 (Some ''http://j/Items/1/Images/Primary'') (Some ''jellyfin'')
     = Redirect ''/placeholder-poster.jpg'' \<and>
   img_plex upstream_404 (Some ''http://p/library/1/thumb'') = Redirect ''/placeholder-poster.jpg''"
proof -
  have f: "\<And>url. \<forall>hs. \<exists>st txt ct. upstream_404 url hs = Response st txt ct \<and> (st < 200 \<or> 299 < st)"
    by (simp add: upstream_404_def)
  have a: "''http://j/Items/1/Images/Primary'' \<noteq> []" by simp
  have b: "''http://p/library/1/thumb'' \<noteq> []" by simp
  show ?thesis
    using conjunct1 [OF img_redirects_on_upstream_failure [OF a f]]
      conjunct2 [OF img_redirects_on_upstream_failure [OF b f]]
    by simp
qed

text \<open>
  Claim C8 as stated covers every image proxy. The handler of the Tautulli file has no
  placeholder: on an upstream 404 it answers
  with status 502 and a JSON error body.
\<close>

theorem img_tautulli_json_counterexample:
  "img_tautulli 1500 upstream_404 (Some ''http://t/pms/image'') = Json 502 [(''error'', ''upstream 404'')]"
  by (simp add: img_tautulli_def upstream_404_def ok_def show_int_def show_nat.simps digit_char_def)

section \<open>List assembly: what the loops collect\<close>

text \<open>
  The collecting loop with its \<open>break\<close> builds the entries of the first \<open>limit\<close>
  records, in order; it returns whenever no poster builder throws.
\<close>

lemma sort_desc_sorted:
  fixes k :: "'a \<Rightarrow> int"
  shows "sorted_wrt (\<lambda>a b. k b \<le> k a) (sort_key (\<lambda>a. - k a) xs)"
proof -
  have "sorted (map (\<lambda>a. - k a) (sort_key (\<lambda>a. - k a) xs))"
    by (rule sorted_sort_key)
  then show ?thesis by (simp add: sorted_map)
qed

lemma desc_distinct_strict:
  fixes k :: "'a \<Rightarrow> int"
  shows "sorted_wrt (\<lambda>a b. k b \<le> k a) xs \<Longrightarrow> distinct (map k xs) \<Longrightarrow>
         sorted_wrt (\<lambda>a b. k b < k a) xs"
proof (induction xs)
  case Nil
  then show ?case by simp
next
  case (Cons x xs)
  have "k b < k x" if "b \<in> set xs" for b
  proof -
    have "k b \<le> k x" using Cons.prems(1) that by simp
    moreover have "k b \<noteq> k x" using Cons.prems(2) that by (auto simp: image_iff)
    ultimately show ?thesis by simp
  qed
  then show ?case using Cons by simp
qed

lemma watched_loop_take:
  "watched_loop parse e limit xs acc = Inr items \<Longrightarrow> int (length acc) < limit \<Longrightarrow>
   \<exists>built. map (watched_entry parse e) (take (nat limit - length acc) xs) = map Inr built \<and>
           items = acc @ built"
proof (induction xs arbitrary: acc)
  case Nil
  then show ?case by simp
next
  case (Cons x xs)
  from Cons.prems(1) obtain it where it: "watched_entry parse e x = Inr it"
    by (auto split: sum.splits)
  have pos: "nat limit - length acc = Suc (nat limit - length (acc @ [it]))"
    using Cons.prems(2) by simp
  show ?case
  proof (cases "int (length (acc @ [it])) \<ge> limit")
    case True
    then have "items = acc @ [it]" using Cons.prems(1) it by simp
    moreover have "nat limit - length (acc @ [it]) = 0" using True by simp
    ultimately show ?thesis using it pos by simp
  next
    case False
    then have "watched_loop parse e limit xs (acc @ [it]) = Inr items"
      using Cons.prems(1) it by simp
    moreover have "int (length (acc @ [it])) < limit" using False by simp
    ultimately obtain built where
      b: "map (watched_entry parse e) (take (nat limit - length (acc @ [it])) xs) = map Inr built"
        "items = (acc @ [it]) @ built"
      using Cons.IH by blast
    have "map (watched_entry parse e) (take (nat limit - length acc) (x # xs)) = map Inr (it # built)"
      unfolding pos using it b(1) by simp
    then show ?thesis using b(2) by (intro exI [of _ "it # built"]) simp
  qed
qed

lemma watched_loop_returns:
  "\<forall>x \<in> set (take (nat limit - length acc) xs). \<exists>it. watched_entry parse e x = Inr it \<Longrightarrow>
   int (length acc) < limit \<Longrightarrow> \<exists>items. watched_loop parse e limit xs acc = Inr items"
proof (induction xs arbitrary: acc)
  case Nil
  then show ?case by simp
next
  case (Cons x xs)
  have pos: "nat limit - length acc = Suc (nat limit - length (acc @ [it]))" for it :: watched_item
    using Cons.prems(2) by simp
  have "x \<in> set (take (nat limit - length acc) (x # xs))"
    using Cons.prems(2) by (cases "nat limit - length acc") simp_all
  then obtain it where it: "watched_entry parse e x = Inr it"
    using Cons.prems(1) by blast
  show ?case
  proof (cases "int (length (acc @ [it])) \<ge> limit")
    case True
    then show ?thesis using it by simp
  next
    case False
    have "\<forall>y \<in> set (take (nat limit - length (acc @ [it])) xs). \<exists>it'. watched_entry parse e y = Inr it'"
      using Cons.prems(1) pos [of it] by simp
    moreover have "int (length (acc @ [it])) < limit" using False by simp
    ultimately obtain items where "watched_loop parse e limit xs (acc @ [it]) = Inr items"
      using Cons.IH by blast
    then show ?thesis using it False by simp
  qed
qed


lemma added_loop_take:
  "added_loop parseInt clk e limit i xs acc = Inr items \<Longrightarrow> int (length acc) < limit \<Longrightarrow>
   \<exists>built. map (\<lambda>(j, x). added_entry parseInt (clk j) e x)
             (take (nat limit - length acc) (enumerate i xs)) = map Inr built \<and>
           items = acc @ built"
proof (induction xs arbitrary: acc i)
  case Nil
  then show ?case by simp
next
  case (Cons x xs)
  from Cons.prems(1) obtain it where it: "added_entry parseInt (clk i) e x = Inr it"
    by (auto split: sum.splits)
  have pos: "nat limit - length acc = Suc (nat limit - length (acc @ [it]))"
    using Cons.prems(2) by simp
  show ?case
  proof (cases "int (length (acc @ [it])) \<ge> limit")
    case True
    then have "items = acc @ [it]" using Cons.prems(1) it by simp
    moreover have "nat limit - length (acc @ [it]) = 0" using True by simp
    ultimately show ?thesis using it pos by simp
  next
    case False
    then have "added_loop parseInt clk e limit (Suc i) xs (acc @ [it]) = Inr items"
      using Cons.prems(1) it by simp
    moreover have "int (length (acc @ [it])) < limit" using False by simp
    ultimately obtain built where
      b: "map (\<lambda>(j, x). added_entry parseInt (clk j) e x)
            (take (nat limit - length (acc @ [it])) (enumerate (Suc i) xs)) = map Inr built"
        "items = (acc @ [it]) @ built"
      using Cons.IH by blast
    have "map (\<lambda>(j, x). added_entry parseInt (clk j) e x)
            (take (nat limit - length acc) (enumerate i (x # xs))) = map Inr (it # built)"
      unfolding pos using it b(1) by simp
    then show ?thesis using b(2) by (intro exI [of _ "it # built"]) simp
  qed
qed

lemma added_loop_returns:
  "\<forall>x \<in> set (take (nat limit - length acc) xs). \<forall>t. \<exists>it. added_entry parseInt t e x = Inr it \<Longrightarrow>
   int (length acc) < limit \<Longrightarrow> \<exists>items. added_loop parseInt clk e limit i xs acc = Inr items"
proof (induction xs arbitrary: acc i)
  case Nil
  then show ?case by simp
next
  case (Cons x xs)
  have pos: "nat limit - length acc = Suc (nat limit - length (acc @ [it]))" for it :: added_item
    using Cons.prems(2) by simp
  have "x \<in> set (take (nat limit - length acc) (x # xs))"
    using Cons.prems(2) by (cases "nat limit - length acc") simp_all
  then have "\<forall>t. \<exists>it. added_entry parseInt t e x = Inr it"
    using Cons.prems(1) by blast
  then obtain it where it: "added_entry parseInt (clk i) e x = Inr it"
    by blast
  show ?case
  proof (cases "int (length (acc @ [it])) \<ge> limit")
    case True
    then show ?thesis using it by simp
  next
    case False
    have "\<forall>y \<in> set (take (nat limit - length (acc @ [it])) xs).
            \<forall>t. \<exists>it'. added_entry parseInt t e y = Inr it'"
      using Cons.prems(1) pos [of it] by simp
    moreover have "int (length (acc @ [it])) < limit" using False by simp
    ultimately obtain items where "added_loop parseInt clk e limit (Suc i) xs (acc @ [it]) = Inr items"
      using Cons.IH by blast
    then show ?thesis using it False by simp
  qed
qed

lemma opt_startsWith_typed:
  "(case v of JBool b \<Rightarrow> False | JNum n \<Rightarrow> False | _ \<Rightarrow> True) \<Longrightarrow> \<exists>b. opt_startsWith v p = Inr b"
  by (cases v) auto

lemma posterFromTautulli_plex_returns:
  assumes "\<exists>b. opt_startsWith (getf raw ''thumb_url'') ''http'' = Inr b"
    and "\<exists>b. opt_startsWith (getf raw ''thumb'') ''/'' = Inr b"
  shows "\<exists>p. posterFromTautulli_plex e raw = Inr p"
proof -
  from assms obtain a b where
    "opt_startsWith (getf raw ''thumb_url'') ''http'' = Inr a"
    "opt_startsWith (getf raw ''thumb'') ''/'' = Inr b"
    by blast
  then show ?thesis
    by (cases a; cases b) (simp_all add: posterFromTautulli_plex_def Let_def)
qed

lemma poster_or_returns:
  "\<exists>p. a = Inr p \<Longrightarrow> \<exists>p. b = Inr p \<Longrightarrow> \<exists>p. poster_or a b = Inr p"
  by (auto simp: poster_or_def split: option.splits)

lemma watched_entry_returns:
  assumes "thumbs_typed [''thumb_url'', ''thumb''] x"
  shows "\<exists>it. watched_entry parse e x = Inr it"
proof -
  have u: "\<exists>b. opt_startsWith (getf x ''thumb_url'') ''http'' = Inr b"
    using assms by (intro opt_startsWith_typed) (simp add: thumbs_typed_def)
  have t: "\<exists>b. opt_startsWith (getf x ''thumb'') ''/'' = Inr b"
    using assms by (intro opt_startsWith_typed) (simp add: thumbs_typed_def)
  have a: "\<exists>p. posterFromTautulli_plex e x = Inr p"
    using u t by (rule posterFromTautulli_plex_returns)
  have b: "\<exists>p. posterFromTautulli_plex e
             [''thumb_url'' \<mapsto> getf x ''thumb_url'', ''thumb'' \<mapsto> getf x ''thumb''] = Inr p"
    using u t by (intro posterFromTautulli_plex_returns) (simp_all add: getf_def)
  obtain p where "poster_or (posterFromTautulli_plex e x)
      (posterFromTautulli_plex e
         [''thumb_url'' \<mapsto> getf x ''thumb_url'', ''thumb'' \<mapsto> getf x ''thumb'']) = Inr p"
    using poster_or_returns [OF a b] by blast
  then show ?thesis by (simp add: watched_entry_def Let_def)
qed

lemma added_entry_returns:
  assumes "thumbs_typed [''thumb'', ''parent_thumb''] x"
  shows "\<exists>it. added_entry parseInt t e x = Inr it"
proof -
  have a: "\<exists>p. posterFromTautulli_plex e [''thumb'' \<mapsto> getf x ''thumb''] = Inr p"
    using assms
    by (intro posterFromTautulli_plex_returns opt_startsWith_typed)
       (simp_all add: thumbs_typed_def getf_def)
  have b: "\<exists>p. posterFromTautulli_plex e [''thumb'' \<mapsto> getf x ''parent_thumb''] = Inr p"
    using assms
    by (intro posterFromTautulli_plex_returns opt_startsWith_typed)
       (simp_all add: thumbs_typed_def getf_def)
  obtain p where "poster_or (posterFromTautulli_plex e [''thumb'' \<mapsto> getf x ''thumb''])
      (posterFromTautulli_plex e [''thumb'' \<mapsto> getf x ''parent_thumb'']) = Inr p"
    using poster_or_returns [OF a b] by blast
  then show ?thesis by (simp add: added_entry_def Let_def)
qed

section \<open>List assembly: count and order\<close>

lemma recently_watched_items_props:
  assumes "1 \<le> limit" and "recently_watched_items parse e limit list = Inr items"
  shows "length items = min (nat limit) (length list)"
    and "mset (map Inr items) = mset (map (watched_entry parse e) (take (nat limit) list))"
    and "sorted_wrt (\<lambda>a b. watched_key b \<le> watched_key a) items"
proof -
  from assms(2) obtain coll where
    coll: "watched_loop parse e limit list [] = Inr coll"
    and items: "items = sort_key (\<lambda>a. - watched_key a) coll"
    by (auto simp: recently_watched_items_def split: sum.splits)
  from watched_loop_take [OF coll] assms(1)
  have built: "map (watched_entry parse e) (take (nat limit) list) = map Inr coll"
    by auto
  have "length coll = length (take (nat limit) list)"
    using arg_cong [OF built, of length] by simp
  then show "length items = min (nat limit) (length list)"
    by (simp add: items min.commute)
  have "mset (map Inr items) = image_mset Inr (mset coll)"
    by (simp add: items)
  then show "mset (map Inr items) = mset (map (watched_entry parse e) (take (nat limit) list))"
    by (simp add: built)
  show "sorted_wrt (\<lambda>a b. watched_key b \<le> watched_key a) items"
    unfolding items by (rule sort_desc_sorted)
qed

lemma recently_added_items_props:
  assumes "1 \<le> limit" and "recently_added_items parseInt clk e limit list = Inr items"
  shows "length items = min (nat limit) (length list)"
    and "mset (map Inr items) =
         mset (map (\<lambda>(i, x). added_entry parseInt (clk i) e x) (take (nat limit) (enumerate 0 list)))"
    and "sorted_wrt (\<lambda>a b. added_key (added_at b) \<le> added_key (added_at a)) items"
proof -
  from assms(2) obtain coll where
    coll: "added_loop parseInt clk e limit 0 list [] = Inr coll"
    and items: "items = sort_key (\<lambda>a. - added_key (added_at a)) coll"
    by (auto simp: recently_added_items_def split: sum.splits)
  from added_loop_take [OF coll] assms(1)
  have built: "map (\<lambda>(i, x). added_entry parseInt (clk i) e x) (take (nat limit) (enumerate 0 list))
      = map Inr coll"
    by auto
  have "length coll = length (take (nat limit) (enumerate 0 list))"
    using arg_cong [OF built, of length] by simp
  then show "length items = min (nat limit) (length list)"
    by (simp add: items min.commute)
  have "mset (map Inr items) = image_mset Inr (mset coll)"
    by (simp add: items)
  then show "mset (map Inr items) =
         mset (map (\<lambda>(i, x). added_entry parseInt (clk i) e x) (take (nat limit) (enumerate 0 list)))"
    by (simp add: built)
  show "sorted_wrt (\<lambda>a b. added_key (added_at b) \<le> added_key (added_at a)) items"
    unfolding items by (rule sort_desc_sorted)
qed

lemma recently_watched_items_returns:
  assumes "1 \<le> limit"
    and "\<forall>x \<in> set (take (nat limit) list). thumbs_typed [''thumb_url'', ''thumb''] x"
  shows "\<exists>items. recently_watched_items parse e limit list = Inr items"
proof -
  have "\<forall>x \<in> set (take (nat limit - length ([] :: watched_item list)) list).
          \<exists>it. watched_entry parse e x = Inr it"
    using assms(2) by (simp add: watched_entry_returns)
  moreover have "int (length ([] :: watched_item list)) < limit" using assms(1) by simp
  ultimately obtain coll where "watched_loop parse e limit list [] = Inr coll"
    using watched_loop_returns by blast
  then show ?thesis by (simp add: recently_watched_items_def)
qed

lemma recently_added_items_returns:
  assumes "1 \<le> limit"
    and "\<forall>x \<in> set (take (nat limit) list). thumbs_typed [''thumb'', ''parent_thumb''] x"
  shows "\<exists>items. recently_added_items parseInt clk e limit list = Inr items"
proof -
  have "\<forall>x \<in> set (take (nat limit - length ([] :: added_item list)) list).
          \<forall>t. \<exists>it. added_entry parseInt t e x = Inr it"
    using assms(2) by (simp add: added_entry_returns)
  moreover have "int (length ([] :: added_item list)) < limit" using assms(1) by simp
  ultimately obtain coll where "added_loop parseInt clk e limit 0 list [] = Inr coll"
    using added_loop_returns by blast
  then show ?thesis by (simp add: recently_added_items_def)
qed

text \<open>
  Claim C3, as amended. For a limit \<open>L \<ge> 1\<close>, each of the two list assemblers that
  returns, returns exactly \<open>min L n\<close> items for \<open>n\<close> records: the items built from the
  first \<open>L\<close> records of the list (truncate, then sort), in descending order of the
  timestamp key, strictly descending when the keys are pairwise distinct. The assembler
  returns whenever the image fields of those records are strings or missing.
\<close>

theorem assemble_first_limit_sorted:
  assumes "1 \<le> limit"
  shows
    "(\<forall>items. recently_watched_items parse e limit list = Inr items \<longrightarrow>
        length items = min (nat limit) (length list) \<and>
        mset (map Inr items) = mset (map (watched_entry parse e) (take (nat limit) list)) \<and>
        sorted_wrt (\<lambda>a b. watched_key b \<le> watched_key a) items \<and>
        (distinct (map watched_key items) \<longrightarrow>
           sorted_wrt (\<lambda>a b. watched_key b < watched_key a) items)) \<and>
     ((\<forall>x \<in> set (take (nat limit) list). thumbs_typed [''thumb_url'', ''thumb''] x) \<longrightarrow>
        (\<exists>items. recently_watched_items parse e limit list = Inr items)) \<and>
     (\<forall>items. recently_added_items parseInt clk e limit list = Inr items \<longrightarrow>
        length items = min (nat limit) (length list) \<and>
        mset (map Inr items) =
          mset (map (\<lambda>(i, x). added_entry parseInt (clk i) e x) (take (nat limit) (enumerate 0 list))) \<and>
        sorted_wrt (\<lambda>a b. added_key (added_at b) \<le> added_key (added_at a)) items \<and>
        (distinct (map (\<lambda>a. added_key (added_at a)) items) \<longrightarrow>
           sorted_wrt (\<lambda>a b. added_key (added_at b) < added_key (added_at a)) items)) \<and>
     ((\<forall>x \<in> set (take (nat limit) list). thumbs_typed [''thumb'', ''parent_thumb''] x) \<longrightarrow>
        (\<exists>items. recently_added_items parseInt clk e limit list = Inr items))"
proof (intro conjI allI impI)
  fix items
  assume r: "recently_watched_items parse e limit list = Inr items"
  show "length items = min (nat limit) (length list)"
    by (rule recently_watched_items_props(1) [OF assms r])
  show "mset (map Inr items) = mset (map (watched_entry parse e) (take (nat limit) list))"
    by (rule recently_watched_items_props(2) [OF assms r])
  show s: "sorted_wrt (\<lambda>a b. watched_key b \<le> watched_key a) items"
    by (rule recently_watched_items_props(3) [OF assms r])
  assume "distinct (map watched_key items)"
  with s show "sorted_wrt (\<lambda>a b. watched_key b < watched_key a) items"
    by (rule desc_distinct_strict)
next
  assume "\<forall>x \<in> set (take (nat limit) list). thumbs_typed [''thumb_url'', ''thumb''] x"
  with assms show "\<exists>items. recently_watched_items parse e limit list = Inr items"
    by (rule recently_watched_items_returns)
next
  fix items
  assume r: "recently_added_items parseInt clk e limit list = Inr items"
  show "length items = min (nat limit) (length list)"
    by (rule recently_added_items_props(1) [OF assms r])
  show "mset (map Inr items) =
      mset (map (\<lambda>(i, x). added_entry parseInt (clk i) e x) (take (nat limit) (enumerate 0 list)))"
    by (rule recently_added_items_props(2) [OF assms r])
  show s: "sorted_wrt (\<lambda>a b. added_key (added_at b) \<le> added_key (added_at a)) items"
    by (rule recently_added_items_props(3) [OF assms r])
  assume "distinct (map (\<lambda>a. added_key (added_at a)) items)"
  with s show "sorted_wrt (\<lambda>a b. added_key (added_at b) < added_key (added_at a)) items"
    by (rule desc_distinct_strict)
next
  assume "\<forall>x \<in> set (take (nat limit) list). thumbs_typed [''thumb'', ''parent_thumb''] x"
  with assms show "\<exists>items. recently_added_items parseInt clk e limit list = Inr items"
    by (rule recently_added_items_returns)
qed

theorem assemble_first_limit_sorted_witness:
  "(\<exists>items. recently_watched_items Date_parse_iso_sample no_env 3 five_watched = Inr items \<and>
       length items = 3 \<and>
       map watched_at items = [Some 1700000003000, Some 1700000002000, Some 1700000001000] \<and>
       sorted_wrt (\<lambda>a b. watched_key b < watched_key a) items) \<and>
   (\<exists>items. recently_added_items parseInt_digits (fixed_clock 1800000000000) no_env 3 five_added
         = Inr items \<and>
       length items = 3 \<and>
       map added_at items = [JNum 1700000003000, JNum 1700000002000, JNum 1700000001000] \<and>
       sorted_wrt (\<lambda>a b. added_key (added_at b) < added_key (added_at a)) items)"
proof -
  note T = assemble_first_limit_sorted [where limit = 3 and parse = Date_parse_iso_sample
      and e = no_env and parseInt = parseInt_digits and clk = "fixed_clock 1800000000000"]
  have l: "(1::int) \<le> 3" by simp
  have tw: "\<forall>x \<in> set (take (nat 3) five_watched). thumbs_typed [''thumb_url'', ''thumb''] x"
    by (simp add: five_watched_def thumbs_typed_def getf_def)
  have ta: "\<forall>x \<in> set (take (nat 3) five_added). thumbs_typed [''thumb'', ''parent_thumb''] x"
    by (simp add: five_added_def thumbs_typed_def getf_def)
  have ew: "map_sum id (map watched_at)
      (recently_watched_items Date_parse_iso_sample no_env 3 five_watched)
      = Inr [Some 1700000003000, Some 1700000002000, Some 1700000001000]"
    by code_simp
  have ea: "map_sum id (map added_at)
      (recently_added_items parseInt_digits (fixed_clock 1800000000000) no_env 3 five_added)
      = Inr [JNum 1700000003000, JNum 1700000002000, JNum 1700000001000]"
    by code_simp
  have w: "\<exists>items. recently_watched_items Date_parse_iso_sample no_env 3 five_watched = Inr items \<and>
       length items = 3 \<and>
       map watched_at items = [Some 1700000003000, Some 1700000002000, Some 1700000001000] \<and>
       sorted_wrt (\<lambda>a b. watched_key b < watched_key a) items"
  proof -
    from T [OF l, of five_watched] tw obtain items where
      r: "recently_watched_items Date_parse_iso_sample no_env 3 five_watched = Inr items"
      by blast
    have m: "map watched_at items = [Some 1700000003000, Some 1700000002000, Some 1700000001000]"
      using ew r by simp
    have "map watched_key items = map (\<lambda>t. case t of None \<Rightarrow> 0 | Some v \<Rightarrow> v) (map watched_at items)"
      by (simp add: watched_key_def)
    then have d: "distinct (map watched_key items)"
      unfolding m by simp
    from T [OF l, of five_watched] r d
    have "length items = min (nat 3) (length five_watched)"
      and "sorted_wrt (\<lambda>a b. watched_key b < watched_key a) items"
      by blast+
    then show ?thesis using r m by (simp add: five_watched_def)
  qed
  have a: "\<exists>items. recently_added_items parseInt_digits (fixed_clock 1800000000000) no_env 3 five_added
         = Inr items \<and>
       length items = 3 \<and>
       map added_at items = [JNum 1700000003000, JNum 1700000002000, JNum 1700000001000] \<and>
       sorted_wrt (\<lambda>a b. added_key (added_at b) < added_key (added_at a)) items"
  proof -
    from T [OF l, of five_added] ta obtain items where
      r: "recently_added_items parseInt_digits (fixed_clock 1800000000000) no_env 3 five_added
          = Inr items"
      by blast
    have m: "map added_at items = [JNum 1700000003000, JNum 1700000002000, JNum 1700000001000]"
      using ea r by simp
    have "map (\<lambda>a. added_key (added_at a)) items = map added_key (map added_at items)"
      by simp
    then have d: "distinct (map (\<lambda>a. added_key (added_at a)) items)"
      unfolding m by simp
    from T [OF l, of five_added] r d
    have "length items = min (nat 3) (length five_added)"
      and "sorted_wrt (\<lambda>a b. added_key (added_at b) < added_key (added_at a)) items"
      by blast+
    then show ?thesis using r m by (simp add: five_added_def)
  qed
  show ?thesis using w a by blast
qed

text \<open>
  Claim C3 as stated has the assembler sort first and truncate afterwards, so that the
  \<open>L\<close> newest records are returned. The loop stops after the first \<open>L\<close> records and
  only these are sorted: of five records, oldest first, the three oldest come back.
\<close>

theorem assemble_newest_counterexample:
  "map_sum id (map added_at)
     (recently_added_items parseInt_digits (fixed_clock 1800000000000) no_env 3 five_added)
     = Inr [JNum 1700000003000, JNum 1700000002000, JNum 1700000001000] \<and>
   map_sum id (map added_at)
     (recently_added_items parseInt_digits (fixed_clock 1800000000000) no_env 3 five_added)
     \<noteq> Inr [JNum 1700000005000, JNum 1700000004000, JNum 1700000003000]"
  by code_simp

section \<open>List assembly: records without a timestamp\<close>

lemma getWatchedAt_no_candidate:
  "\<forall>f \<in> set candidate_fields. x f = None \<Longrightarrow> getWatchedAt parse x = None"
  unfolding getWatchedAt_def
  by (rule getWatchedAt_loop_all_falsy) (simp add: getf_def)

lemma watched_entry_watched_at:
  "watched_entry parse e x = Inr it \<Longrightarrow> watched_at it = getWatchedAt parse x"
  by (auto simp: watched_entry_def Let_def split: sum.splits)

lemma added_entry_added_at:
  "added_entry parseInt now e x = Inr it \<Longrightarrow>
   added_at it = added_at_of parseInt now (getf x ''added_at'')"
  by (auto simp: added_entry_def Let_def split: sum.splits)

lemma added_at_of_cases:
  "(\<exists>n. n \<noteq> 0 \<and> added_at_of parseInt now a = JNum n) \<or> added_at_of parseInt now a = JNum now \<or>
   added_at_of parseInt now a = JBool True"
  by (cases a) (auto simp: added_at_of_def split: option.splits)

text \<open>
  Claim C7, as amended. A raw record lacking every timestamp candidate field has the
  extracted timestamp null, and its watched item has the sort key 0. In every
  recently-watched list an item without timestamp comes after every item whose resolved
  timestamp is positive. In the recently-added list a record without \<open>added_at\<close> is
  stamped with the current time, and sorted by it.
\<close>

theorem missing_timestamp_order:
  "((\<forall>f \<in> set candidate_fields. x f = None) \<longrightarrow>
      getWatchedAt parse x = None \<and>
      (\<forall>it. watched_entry parse e x = Inr it \<longrightarrow> watched_at it = None \<and> watched_key it = 0)) \<and>
   (\<forall>items i j. recently_watched_items parse e limit list = Inr items \<longrightarrow>
      i < length items \<longrightarrow> j < length items \<longrightarrow>
      watched_at (items ! i) = None \<longrightarrow> 0 < watched_key (items ! j) \<longrightarrow> j < i) \<and>
   (x ''added_at'' = None \<longrightarrow>
      (\<forall>it. added_entry parseInt now e x = Inr it \<longrightarrow> added_at it = JNum now))"
proof (intro conjI allI impI)
  assume a: "\<forall>f \<in> set candidate_fields. x f = None"
  then show n: "getWatchedAt parse x = None"
    by (rule getWatchedAt_no_candidate)
  fix it
  assume "watched_entry parse e x = Inr it"
  then have "watched_at it = getWatchedAt parse x"
    by (rule watched_entry_watched_at)
  with n show "watched_at it = None" by simp
  then show "watched_key it = 0" by (simp add: watched_key_def)
next
  fix items :: "watched_item list" and i j
  assume r: "recently_watched_items parse e limit list = Inr items"
    and i: "i < length items" and j: "j < length items"
    and ni: "watched_at (items ! i) = None" and pj: "0 < watched_key (items ! j)"
  from r obtain coll where "items = sort_key (\<lambda>a. - watched_key a) coll"
    by (auto simp: recently_watched_items_def split: sum.splits)
  then have s: "sorted_wrt (\<lambda>a b. watched_key b \<le> watched_key a) items"
    by (simp add: sort_desc_sorted)
  have ki: "watched_key (items ! i) = 0" using ni by (simp add: watched_key_def)
  show "j < i"
  proof (rule ccontr)
    assume "\<not> j < i"
    then consider "i = j" | "i < j" by linarith
    then show False
    proof cases
      case 1
      then show False using ki pj by simp
    next
      case 2
      then have "watched_key (items ! j) \<le> watched_key (items ! i)"
        using s j by (simp add: sorted_wrt_iff_nth_less)
      then show False using ki pj by simp
    qed
  qed
next
  fix it
  assume "x ''added_at'' = None" and "added_entry parseInt now e x = Inr it"
  then show "added_at it = JNum now"
    by (simp add: added_entry_added_at added_at_of_def getf_def)
qed

theorem missing_timestamp_order_witness:
  "getWatchedAt Date_parse_iso_sample untimed = None \<and>
   (\<exists>items. recently_watched_items Date_parse_iso_sample no_env 10 watched_with_untimed = Inr items \<and>
      map title items = [JStr ''C'', JStr ''A'', JStr ''B''] \<and>
      watched_at (items ! 2) = None \<and> 0 < watched_key (items ! 1) \<and> (1::nat) < 2) \<and>
   (\<exists>it. added_entry parseInt_digits 1800000000000 no_env untimed = Inr it \<and>
      added_at it = JNum 1800000000000)"
proof -
  note T = missing_timestamp_order [where x = untimed and parse = Date_parse_iso_sample
      and e = no_env and limit = 10 and list = watched_with_untimed
      and parseInt = parseInt_digits and now = 1800000000000]
  have c: "\<forall>f \<in> set candidate_fields. untimed f = None"
    by (simp add: candidate_fields_def untimed_def)
  have n: "getWatchedAt Date_parse_iso_sample untimed = None"
    using T c by blast
  have ev: "map_sum id (map (\<lambda>a. (title a, watched_at a)))
      (recently_watched_items Date_parse_iso_sample no_env 10 watched_with_untimed)
      = Inr [(JStr ''C'', Some 1700000003000), (JStr ''A'', Some 1700000001000), (JStr ''B'', None)]"
    by code_simp
  then obtain items where
    r: "recently_watched_items Date_parse_iso_sample no_env 10 watched_with_untimed = Inr items"
    and m: "map (\<lambda>a. (title a, watched_at a)) items
      = [(JStr ''C'', Some 1700000003000), (JStr ''A'', Some 1700000001000), (JStr ''B'', None)]"
    by (cases "recently_watched_items Date_parse_iso_sample no_env 10 watched_with_untimed") auto
  have len: "length items = 3" using arg_cong [OF m, of length] by simp
  have i2: "(2::nat) < length items" and i1: "(1::nat) < length items" using len by simp_all
  have e2: "(title (items ! 2), watched_at (items ! 2)) = (JStr ''B'', None)"
    using arg_cong [OF m, of "\<lambda>l. l ! 2"] i2 by simp
  have e1: "(title (items ! 1), watched_at (items ! 1)) = (JStr ''A'', Some 1700000001000)"
    using arg_cong [OF m, of "\<lambda>l. l ! 1"] i1 by simp
  have w2: "watched_at (items ! 2) = None" using e2 by simp
  have k1: "0 < watched_key (items ! 1)" using e1 by (simp add: watched_key_def)
  have ord: "(1::nat) < 2" using T r i2 i1 w2 k1 by blast
  have tl: "map title items = [JStr ''C'', JStr ''A'', JStr ''B'']"
    using arg_cong [OF m, of "map fst"] by (simp add: comp_def)
  have ua: "untimed ''added_at'' = None" by (simp add: untimed_def)
  have ty: "thumbs_typed [''thumb'', ''parent_thumb''] untimed"
    by (simp add: thumbs_typed_def untimed_def getf_def)
  obtain it where it: "added_entry parseInt_digits 1800000000000 no_env untimed = Inr it"
    using added_entry_returns [OF ty] by blast
  have at: "added_at it = JNum 1800000000000" using T ua it by blast
  have A: "\<exists>items. recently_watched_items Date_parse_iso_sample no_env 10 watched_with_untimed = Inr items \<and>
      map title items = [JStr ''C'', JStr ''A'', JStr ''B''] \<and>
      watched_at (items ! 2) = None \<and> 0 < watched_key (items ! 1) \<and> (1::nat) < 2"
    using r tl w2 k1 ord by (intro exI [of _ items] conjI)
  have B: "\<exists>it. added_entry parseInt_digits 1800000000000 no_env untimed = Inr it \<and>
      added_at it = JNum 1800000000000"
    using it at by (intro exI [of _ it] conjI)
  show ?thesis by (intro conjI) (rule n, rule A, rule B)
qed

text \<open>
  Claim C7 as stated puts a record without timestamp after every record with a resolved
  timestamp, in both lists. In the recently-added list such a record is stamped with the
  current time and comes first; in the recently-watched list it counts as epoch 0 and
  comes before a record whose timestamp lies before the epoch.
\<close>

theorem missing_timestamp_counterexample:
  "map_sum id (map (\<lambda>a. (title a, added_at a)))
     (recently_added_items parseInt_digits (fixed_clock 1800000000000) no_env 10 added_with_untimed)
     = Inr [(JStr ''B'', JNum 1800000000000), (JStr ''A'', JNum 1700000000000)] \<and>
   map_sum id (map (\<lambda>a. (title a, watched_at a)))
     (recently_watched_items Date_parse_iso_sample no_env 10 watched_before_epoch)
     = Inr [(JStr ''B'', None), (JStr ''A'', Some (- 86400000))]"
  by code_simp

section \<open>Decimal rendering is injective\<close>

text \<open>Distinct numbers have distinct decimal strings, so distinct days have distinct keys.\<close>

lemma digit_char_cases:
  "d < 10 \<Longrightarrow> d = 0 \<or> d = 1 \<or> d = 2 \<or> d = 3 \<or> d = 4 \<or> d = 5 \<or> d = 6 \<or> d = 7 \<or> d = 8 \<or> d = (9::nat)"
  by arith

lemma digit_char_inj:
  assumes "a < 10" and "b < 10" and "digit_char a = digit_char b"
  shows "a = b"
  using digit_char_cases [OF assms(1)] digit_char_cases [OF assms(2)] assms(3)
  by (elim disjE) (simp_all add: digit_char_def)

lemma digit_char_not_minus:
  assumes "d < 10"
  shows "digit_char d \<noteq> CHR ''-''"
  using digit_char_cases [OF assms] by (elim disjE) (simp_all add: digit_char_def)

lemma show_nat_nonempty: "show_nat n \<noteq> []"
  by (subst show_nat.simps) simp

lemma show_nat_hd_not_minus: "hd (show_nat n) \<noteq> CHR ''-''"
proof (induction n rule: show_nat.induct)
  case (1 n)
  show ?case
  proof (cases "n < 10")
    case True
    then show ?thesis by (subst show_nat.simps) (simp add: digit_char_not_minus)
  next
    case False
    then have "hd (show_nat n) = hd (show_nat (n div 10))"
      by (subst show_nat.simps) (simp add: show_nat_nonempty)
    then show ?thesis using 1 False by simp
  qed
qed

lemma show_nat_inj: "show_nat n = show_nat m \<Longrightarrow> n = m"
proof (induction n arbitrary: m rule: show_nat.induct)
  case (1 n)
  have sn: "show_nat n = (if n < 10 then [digit_char n] else show_nat (n div 10) @ [digit_char (n mod 10)])"
    by (rule show_nat.simps)
  have sm: "show_nat m = (if m < 10 then [digit_char m] else show_nat (m div 10) @ [digit_char (m mod 10)])"
    by (rule show_nat.simps)
  show ?case
  proof (cases "n < 10")
    case n: True
    show ?thesis
    proof (cases "m < 10")
      case True
      then show ?thesis using n sn sm "1.prems" by (simp add: digit_char_inj)
    next
      case False
      then have "[digit_char n] = show_nat (m div 10) @ [digit_char (m mod 10)]"
        using n sn sm "1.prems" by simp
      then show ?thesis using show_nat_nonempty [of "m div 10"] by simp
    qed
  next
    case n: False
    show ?thesis
    proof (cases "m < 10")
      case True
      then have "show_nat (n div 10) @ [digit_char (n mod 10)] = [digit_char m]"
        using n sn sm "1.prems" by simp
      then show ?thesis using show_nat_nonempty [of "n div 10"] by simp
    next
      case False
      then have e: "show_nat (n div 10) @ [digit_char (n mod 10)]
          = show_nat (m div 10) @ [digit_char (m mod 10)]"
        using n sn sm "1.prems" by simp
      then have "show_nat (n div 10) = show_nat (m div 10)" by simp
      then have d: "n div 10 = m div 10" using "1.IH" n by blast
      have "digit_char (n mod 10) = digit_char (m mod 10)" using e by simp
      then have "n mod 10 = m mod 10" by (intro digit_char_inj) simp_all
      then show ?thesis using d by (metis div_mult_mod_eq)
    qed
  qed
qed

lemma show_int_inj: "show_int i = show_int j \<Longrightarrow> i = j"
proof -
  assume e: "show_int i = show_int j"
  have neg_pos: False if "show_int a = show_int b" "a < 0" "\<not> b < 0" for a b
  proof -
    have "hd (show_int a) = CHR ''-''" using that(2) by (simp add: show_int_def)
    moreover have "hd (show_int b) \<noteq> CHR ''-''"
      using that(3) by (simp add: show_int_def show_nat_hd_not_minus)
    ultimately show False using that(1) by simp
  qed
  show ?thesis
  proof (cases "i < 0"; cases "j < 0")
    assume "i < 0" "j < 0"
    then have "nat (- i) = nat (- j)" using e by (simp add: show_int_def show_nat_inj)
    then show ?thesis using \<open>i < 0\<close> \<open>j < 0\<close> by simp
  next
    assume "i < 0" "\<not> j < 0"
    then show ?thesis using neg_pos [OF e] by simp
  next
    assume "\<not> i < 0" "j < 0"
    then show ?thesis using neg_pos [OF e [symmetric]] by simp
  next
    assume "\<not> i < 0" "\<not> j < 0"
    then have "nat i = nat j" using e by (simp add: show_int_def show_nat_inj)
    then show ?thesis using \<open>\<not> i < 0\<close> \<open>\<not> j < 0\<close> by simp
  qed
qed

lemma day_key_inj [simp]: "day_key i = day_key j \<longleftrightarrow> i = j"
  by (auto simp: day_key_def dest: show_int_inj)

section \<open>Monthly bucketing: the cells\<close>

lemma fold_zero_lookup:
  "fold (\<lambda>i d. d(f i \<mapsto> 0::int)) xs m k = (if k \<in> f ` set xs then Some 0 else m k)"
  by (induction xs arbitrary: m) auto

lemma monthly_empty_lookup: "monthly_empty k = (if k \<in> monthly_keys then Some 0 else None)"
  by (simp add: monthly_empty_def monthly_keys_def fold_zero_lookup)

lemma monthly_count_dom: "dom (monthly_count now ev d) = dom d"
  by (auto simp: monthly_count_def Let_def split: option.splits if_splits)

lemma monthly_count_nonneg:
  "\<forall>k n. d k = Some n \<longrightarrow> 0 \<le> n \<Longrightarrow> monthly_count now ev d k = Some n \<Longrightarrow> 0 \<le> n"
  by (fastforce simp: monthly_count_def Let_def split: option.splits if_splits)

lemma monthly_count_cell:
  assumes "d (day_key j) = Some c" and "1 \<le> j" and "j \<le> 30"
  shows "monthly_count now ev d (day_key j) =
         Some (c + (if (now - timestamp ev) div 86400000 = 30 - j then 1 else 0))"
proof (cases "0 \<le> (now - timestamp ev) div 86400000 \<and> (now - timestamp ev) div 86400000 < 30")
  case True
  show ?thesis
  proof (cases "(now - timestamp ev) div 86400000 = 30 - j")
    case eq: True
    then have "day_key (30 - (now - timestamp ev) div 86400000) = day_key j" by simp
    then show ?thesis using True assms eq by (simp add: monthly_count_def Let_def)
  next
    case ne: False
    then have "30 - (now - timestamp ev) div 86400000 \<noteq> j" by linarith
    then show ?thesis using True assms ne
      by (simp add: monthly_count_def Let_def split: option.splits)
  qed
next
  case False
  then show ?thesis using assms by (auto simp: monthly_count_def Let_def)
qed

lemma monthly_fold_cell:
  assumes "1 \<le> j" and "j \<le> 30"
  shows "d (day_key j) = Some c \<Longrightarrow>
   fold (monthly_count now) events d (day_key j) =
   Some (c + int (length (filter (\<lambda>ev. (now - timestamp ev) div 86400000 = 30 - j) events)))"
proof (induction events arbitrary: d c)
  case Nil
  then show ?case by simp
next
  case (Cons ev events)
  have step: "monthly_count now ev d (day_key j) =
      Some (c + (if (now - timestamp ev) div 86400000 = 30 - j then 1 else 0))"
    using Cons.prems assms by (rule monthly_count_cell)
  show ?case
    using Cons.IH [of "monthly_count now ev d"
        "c + (if (now - timestamp ev) div 86400000 = 30 - j then 1 else 0)", OF step]
    by simp
qed

lemma monthly_fold_dom: "dom (fold (monthly_count now) events d) = dom d"
  by (induction events arbitrary: d) (simp_all add: monthly_count_dom)

lemma monthly_fold_nonneg:
  "\<forall>k n. d k = Some n \<longrightarrow> 0 \<le> n \<Longrightarrow> fold (monthly_count now) events d k = Some n \<Longrightarrow> 0 \<le> n"
proof (induction events arbitrary: d)
  case Nil
  then show ?case by simp
next
  case (Cons ev events)
  have "\<forall>k n. monthly_count now ev d k = Some n \<longrightarrow> 0 \<le> n"
    using Cons.prems(1) monthly_count_nonneg by blast
  then show ?case using Cons.IH Cons.prems(2) by simp
qed

lemma monthly_keys_mem: "1 \<le> j \<Longrightarrow> j \<le> 30 \<Longrightarrow> day_key j \<in> monthly_keys"
  by (simp add: monthly_keys_def)

lemma monthly_count_dropped:
  "30 \<le> (now - timestamp ev) div 86400000 \<Longrightarrow> monthly_count now ev d = d"
  by (simp add: monthly_count_def Let_def)

lemma dom_monthly_empty: "dom monthly_empty = monthly_keys"
  by (auto simp: monthly_empty_lookup dom_def)

lemma card_monthly_keys: "card monthly_keys = 30"
proof -
  have "inj_on day_key {1..30}" by (simp add: inj_on_def)
  then have "card monthly_keys = card {1..30::int}"
    unfolding monthly_keys_def by (rule card_image)
  then show ?thesis by simp
qed

lemma handler_empty_lookup:
  "fold (\<lambda>i d. d(day_key (i + 1) \<mapsto> 0::int)) [0..29] Map.empty k =
   (if k \<in> monthly_keys then Some 0 else None)"
proof -
  have "(\<lambda>i. day_key (i + 1)) ` {0..29} = day_key ` {1..30}"
  proof -
    have "(\<lambda>i::int. i + 1) ` {0..29} = {1..30}"
      by (auto simp: image_iff intro: bexI [of _ "x - 1" for x])
    then show ?thesis by (metis image_image)
  qed
  then show ?thesis by (simp add: fold_zero_lookup monthly_keys_def)
qed

lemma int_div_less_imp:
  fixes a b n :: int
  assumes "0 < b" and "a div b < n"
  shows "a < n * b"
proof -
  have "a = b * (a div b) + a mod b" by simp
  moreover have "a mod b < b" using assms(1) by simp
  moreover have "b * (a div b) \<le> b * (n - 1)"
    using assms by (intro mult_left_mono) simp_all
  ultimately have "a < b * (n - 1) + b" by linarith
  then show ?thesis by (simp add: algebra_simps)
qed

lemma monthly_handler_count_cell:
  assumes "monthData (day_key j) = Some c" and "1 \<le> j" and "j \<le> 30"
  shows "monthly_handler_count parse now x monthData (day_key j) =
         Some (c + (if counted parse now j x then 1 else 0))"
proof (cases "getWatchedAt parse x")
  case None
  then show ?thesis using assms(1) by (simp add: monthly_handler_count_def counted_def)
next
  case (Some t)
  show ?thesis
  proof (cases "(now - t) div 86400000 = 30 - j")
    case eq: True
    then have "(now - t) div 86400000 < 30" using assms(2) by simp
    then have "now - t < 30 * 86400000" by (intro int_div_less_imp) simp_all
    then have recent: "\<not> t < now - 2592000000" by simp
    have key: "day_key (30 - (now - t) div 86400000) = day_key j" using eq by simp
    show ?thesis
      using Some eq recent assms(1,2)
      by (simp add: monthly_handler_count_def counted_def Let_def key)
  next
    case ne: False
    then have "30 - (now - t) div 86400000 \<noteq> j" by linarith
    then show ?thesis
      using Some ne assms(1)
      by (simp add: monthly_handler_count_def counted_def Let_def)
  qed
qed

lemma monthly_handler_fold_cell:
  assumes "1 \<le> j" and "j \<le> 30"
  shows "monthData (day_key j) = Some c \<Longrightarrow>
   fold (monthly_handler_count parse now) list monthData (day_key j) =
   Some (c + int (length (filter (counted parse now j) list)))"
proof (induction list arbitrary: monthData c)
  case Nil
  then show ?case by simp
next
  case (Cons x list)
  have step: "monthly_handler_count parse now x monthData (day_key j) =
      Some (c + (if counted parse now j x then 1 else 0))"
    using Cons.prems assms by (rule monthly_handler_count_cell)
  show ?case
    using Cons.IH [of "monthly_handler_count parse now x monthData"
        "c + (if counted parse now j x then 1 else 0)", OF step]
    by simp
qed

lemma monthly_handler_count_dropped:
  "getWatchedAt parse x = None \<or>
   (\<exists>t. getWatchedAt parse x = Some t \<and> 30 \<le> (now - t) div 86400000) \<Longrightarrow>
   monthly_handler_count parse now x monthData = monthData"
  by (auto simp: monthly_handler_count_def Let_def)

lemma buildMonthlyActivityData_cell:
  assumes "1 \<le> j" and "j \<le> 30"
  shows "buildMonthlyActivityData w events (day_key j) =
         Some (int (length (filter (\<lambda>ev. (clock w - timestamp ev) div 86400000 = 30 - j) events)))"
proof -
  have "monthly_empty (day_key j) = Some 0"
    using assms by (simp add: monthly_empty_lookup monthly_keys_mem)
  from monthly_fold_cell [where d = monthly_empty and c = 0, OF assms this] show ?thesis
    by (simp add: buildMonthlyActivityData_def)
qed

lemma activity_monthly_data_cell:
  assumes "1 \<le> j" and "j \<le> 30"
  shows "activity_monthly_data parse now list (day_key j) =
         Some (int (length (filter (counted parse now j) list)))"
proof -
  have "fold (\<lambda>i d. d(day_key (i + 1) \<mapsto> 0::int)) [0..29] Map.empty (day_key j) = Some 0"
    using assms by (simp add: handler_empty_lookup monthly_keys_mem)
  from monthly_handler_fold_cell [where c = 0
      and monthData = "fold (\<lambda>i d. d(day_key (i + 1) \<mapsto> 0::int)) [0..29] Map.empty", OF assms this]
  show ?thesis
    by (simp add: activity_monthly_data_def)
qed

lemma day_key_25: "day_key 25 = ''day_25''"
  by (simp add: day_key_def show_int_def show_nat.simps digit_char_def)

text \<open>
  Claim C4, as amended. For every event list and reference time \<open>now\<close>, cell
  \<open>day_j\<close> (\<open>1 \<le> j \<le> 30\<close>) of the monthly grid counts exactly the events whose age
  \<open>daysAgo = floor ((now - timestampMs) / 86400000)\<close> is \<open>30 - j\<close>, that is an event with
  \<open>0 \<le> daysAgo < 30\<close> increments cell \<open>day_(30 - daysAgo)\<close> and no other of the thirty;
  in the request handler this holds for the records whose timestamp is not 0. An event
  30 days old or older, and a record without timestamp, leaves the grid as it is.
\<close>

theorem monthly_bucketing:
  assumes "1 \<le> j" and "j \<le> 30"
  shows
    "buildMonthlyActivityData w events (day_key j) =
       Some (int (length (filter (\<lambda>ev. (clock w - timestamp ev) div 86400000 = 30 - j) events))) \<and>
     (\<forall>(ev :: event) d. 30 \<le> (clock w - timestamp ev) div 86400000 \<longrightarrow>
        monthly_count (clock w) ev d = d) \<and>
     activity_monthly_data parse now list (day_key j) =
       Some (int (length (filter (counted parse now j) list))) \<and>
     (\<forall>x d. getWatchedAt parse x = None \<or>
             (\<exists>t. getWatchedAt parse x = Some t \<and> 30 \<le> (now - t) div 86400000) \<longrightarrow>
             monthly_handler_count parse now x d = d)"
proof (intro conjI allI impI)
  show "buildMonthlyActivityData w events (day_key j) =
       Some (int (length (filter (\<lambda>ev. (clock w - timestamp ev) div 86400000 = 30 - j) events)))"
    by (rule buildMonthlyActivityData_cell [OF assms])
  show "activity_monthly_data parse now list (day_key j) =
       Some (int (length (filter (counted parse now j) list)))"
    by (rule activity_monthly_data_cell [OF assms])
next
  fix ev :: event and d
  assume "30 \<le> (clock w - timestamp ev) div 86400000"
  then show "monthly_count (clock w) ev d = d" by (rule monthly_count_dropped)
next
  fix x d
  assume "getWatchedAt parse x = None \<or>
      (\<exists>t. getWatchedAt parse x = Some t \<and> 30 \<le> (now - t) div 86400000)"
  then show "monthly_handler_count parse now x d = d" by (rule monthly_handler_count_dropped)
qed

theorem monthly_bucketing_witness:
  "buildMonthlyActivityData (utc_world 1700000000000)
     [\<lparr>timestamp = 1700000000000 - 5 * 86400000\<rparr>, \<lparr>timestamp = 1700000000000 - 30 * 86400000\<rparr>]
     ''day_25'' = Some 1 \<and>
   monthly_count 1700000000000 \<lparr>timestamp = 1700000000000 - 30 * 86400000\<rparr> monthly_empty
     = monthly_empty \<and>
   activity_monthly_data Date_parse_iso_sample 1700000000000
     [[''date'' \<mapsto> JNum 1699568000], untimed] ''day_25'' = Some 1 \<and>
   monthly_handler_count Date_parse_iso_sample 1700000000000 untimed Map.empty = Map.empty"
proof -
  note T = monthly_bucketing [where j = 25 and w = "utc_world 1700000000000"
      and parse = Date_parse_iso_sample and now = 1700000000000]
  have a: "(1::int) \<le> 25" and b: "(25::int) \<le> 30" by simp_all
  have c: "clock (utc_world 1700000000000) = 1700000000000" by (simp add: utc_world_def)
  have g1: "getWatchedAt Date_parse_iso_sample [''date'' \<mapsto> JNum 1699568000] = Some 1699568000000"
    by (simp add: getWatchedAt_def candidate_fields_def getf_def)
  have g2: "getWatchedAt Date_parse_iso_sample untimed = None"
    by (simp add: getWatchedAt_def candidate_fields_def getf_def untimed_def Date_parse_iso_sample_def)
  have old: "(30::int) \<le> (clock (utc_world 1700000000000)
      - timestamp \<lparr>timestamp = 1700000000000 - 30 * 86400000\<rparr>) div 86400000"
    by (simp add: c)
  have p1: "buildMonthlyActivityData (utc_world 1700000000000)
     [\<lparr>timestamp = 1700000000000 - 5 * 86400000\<rparr>, \<lparr>timestamp = 1700000000000 - 30 * 86400000\<rparr>]
     ''day_25'' = Some 1"
    using conjunct1 [OF T [OF a b], of "[\<lparr>timestamp = 1700000000000 - 5 * 86400000\<rparr>,
        \<lparr>timestamp = 1700000000000 - 30 * 86400000\<rparr>]"]
    by (simp add: c day_key_25)
  have p2: "monthly_count 1700000000000 \<lparr>timestamp = 1700000000000 - 30 * 86400000\<rparr> monthly_empty
     = monthly_empty"
    using T [OF a b, THEN conjunct2, THEN conjunct1, rule_format, OF old] by (simp add: c)
  have p3: "activity_monthly_data Date_parse_iso_sample 1700000000000
     [[''date'' \<mapsto> JNum 1699568000], untimed] ''day_25'' = Some 1"
    using T [OF a b, THEN conjunct2, THEN conjunct2, THEN conjunct1,
        of "[[''date'' \<mapsto> JNum 1699568000], untimed]"]
    by (simp add: day_key_25 counted_def g1 g2)
  have p4: "monthly_handler_count Date_parse_iso_sample 1700000000000 untimed Map.empty = Map.empty"
    by (rule T [OF a b, THEN conjunct2, THEN conjunct2, THEN conjunct2, rule_format,
          OF disjI1 [OF g2]])
  show ?thesis by (intro conjI) (rule p1, rule p2, rule p3, rule p4)
qed

text \<open>
  Claim C4 as stated counts every event with \<open>0 \<le> daysAgo < 30\<close>. The handler skips a
  timestamp that is falsy, so a record resolved to the epoch itself (timestamp 0) is not
  counted even when the clock is five days after the epoch.
\<close>

theorem monthly_handler_epoch_counterexample:
  "getWatchedAt Date_parse_iso_sample [''date'' \<mapsto> JStr ''1970-01-01T00:00:00.000Z''] = Some 0 \<and>
   (432000000 - 0) div 86400000 = (5::int) \<and>
   activity_monthly_data Date_parse_iso_sample 432000000
     [[''date'' \<mapsto> JStr ''1970-01-01T00:00:00.000Z'']] ''day_25'' = Some 0"
proof -
  have g: "getWatchedAt Date_parse_iso_sample [''date'' \<mapsto> JStr ''1970-01-01T00:00:00.000Z''] = Some 0"
    by (simp add: getWatchedAt_def candidate_fields_def getf_def Date_parse_iso_sample_def)
  have "activity_monthly_data Date_parse_iso_sample 432000000
     [[''date'' \<mapsto> JStr ''1970-01-01T00:00:00.000Z'']] (day_key 25) = Some 0"
    by (simp add: activity_monthly_data_cell counted_def g)
  then show ?thesis using g by (simp add: day_key_25)
qed

section \<open>The aggregators and the clock\<close>

lemma weekly_count_world:
  "getDay w = getDay w' \<Longrightarrow> getHours w = getHours w' \<Longrightarrow> weekly_count w = weekly_count w'"
  by (intro ext) (simp add: weekly_count_def)

text \<open>
  Claim C5, as amended. The weekly aggregator reads no clock: its grid is determined by
  the event list and the time zone of the process. The monthly aggregator reads the wall
  clock itself (\<open>new Date()\<close> at its head, no reference time is passed in): its grid is
  determined by the event list and that reading, so two runs on the same list give the
  same grid when the clock reads the same.
\<close>

theorem aggregators_and_clock:
  "(getDay w = getDay w' \<and> getHours w = getHours w' \<longrightarrow>
      buildWeeklyActivityData w events = buildWeeklyActivityData w' events) \<and>
   (clock w = clock w' \<longrightarrow>
      buildMonthlyActivityData w events = buildMonthlyActivityData w' events)"
proof (intro conjI impI)
  assume "getDay w = getDay w' \<and> getHours w = getHours w'"
  then have "weekly_count w = weekly_count w'"
    by (intro weekly_count_world) simp_all
  then show "buildWeeklyActivityData w events = buildWeeklyActivityData w' events"
    by (simp only: buildWeeklyActivityData_def)
next
  assume "clock w = clock w'"
  then show "buildMonthlyActivityData w events = buildMonthlyActivityData w' events"
    by (simp only: buildMonthlyActivityData_def)
qed

theorem aggregators_and_clock_witness:
  "buildWeeklyActivityData (utc_world 1700000000000) [\<lparr>timestamp = 1699568000000\<rparr>] =
     buildWeeklyActivityData (utc_world 1700086400000) [\<lparr>timestamp = 1699568000000\<rparr>] \<and>
   buildMonthlyActivityData (utc_world 1700000000000) [\<lparr>timestamp = 1699568000000\<rparr>] =
     buildMonthlyActivityData ((utc_world 1700000000000)\<lparr>getHours := getDay (utc_world 0)\<rparr>)
       [\<lparr>timestamp = 1699568000000\<rparr>]"
proof -
  have z: "getDay (utc_world 1700000000000) = getDay (utc_world 1700086400000) \<and>
      getHours (utc_world 1700000000000) = getHours (utc_world 1700086400000)"
    by (simp add: utc_world_def)
  have c: "clock (utc_world 1700000000000) =
      clock ((utc_world 1700000000000)\<lparr>getHours := getDay (utc_world 0)\<rparr>)"
    by simp
  show ?thesis
    using aggregators_and_clock [THEN conjunct1, rule_format, OF z]
      aggregators_and_clock [THEN conjunct2, rule_format, OF c]
    by (intro conjI)
qed

text \<open>
  Claim C5 as stated lets two runs on the same event list at different wall-clock
  moments produce the same grid. One day later the same event has moved from \<open>day_25\<close>
  to \<open>day_24\<close>.
\<close>

theorem monthly_clock_counterexample:
  "buildMonthlyActivityData (utc_world 1700000000000) [\<lparr>timestamp = 1699568000000\<rparr>] \<noteq>
   buildMonthlyActivityData (utc_world 1700086400000) [\<lparr>timestamp = 1699568000000\<rparr>]"
proof -
  have a: "buildMonthlyActivityData (utc_world 1700000000000) [\<lparr>timestamp = 1699568000000\<rparr>]
      (day_key 25) = Some 1"
    by (simp add: buildMonthlyActivityData_cell utc_world_def)
  have b: "buildMonthlyActivityData (utc_world 1700086400000) [\<lparr>timestamp = 1699568000000\<rparr>]
      (day_key 25) = Some 0"
    by (simp add: buildMonthlyActivityData_cell utc_world_def)
  show ?thesis
  proof
    assume "buildMonthlyActivityData (utc_world 1700000000000) [\<lparr>timestamp = 1699568000000\<rparr>] =
      buildMonthlyActivityData (utc_world 1700086400000) [\<lparr>timestamp = 1699568000000\<rparr>]"
    then have "Some (1::int) = Some 0" using a b by simp
    then show False by simp
  qed
qed

section \<open>The grids have a fixed key set\<close>

lemma weekly_fold_lookup:
  "fold (\<lambda>day d. fold (\<lambda>block d'. d'(day @ ''_'' @ block \<mapsto> 0::int)) bs d) ds m k =
   (if k \<in> (\<lambda>(day, block). day @ ''_'' @ block) ` (set ds \<times> set bs) then Some 0 else m k)"
proof (induction ds arbitrary: m)
  case Nil
  then show ?case by simp
next
  case (Cons day ds)
  let ?G = "\<lambda>day d. fold (\<lambda>block d'. d'(day @ ''_'' @ block \<mapsto> 0::int)) bs d"
  let ?K = "\<lambda>ds. (\<lambda>(day, block). day @ ''_'' @ block) ` (set ds \<times> set bs)"
  have inner: "?G day m k = (if k \<in> (\<lambda>block. day @ ''_'' @ block) ` set bs then Some 0 else m k)"
    by (rule fold_zero_lookup)
  have "fold ?G (day # ds) m k = fold ?G ds (?G day m) k"
    by (simp only: fold_simps comp_apply)
  also have "\<dots> = (if k \<in> ?K ds then Some 0 else ?G day m k)"
    by (rule Cons.IH)
  also have "\<dots> = (if k \<in> ?K ds then Some 0
      else if k \<in> (\<lambda>block. day @ ''_'' @ block) ` set bs then Some 0 else m k)"
    by (simp only: inner)
  also have "\<dots> = (if k \<in> ?K (day # ds) then Some 0 else m k)"
  proof -
    have "?K (day # ds) = (\<lambda>block. day @ ''_'' @ block) ` set bs \<union> ?K ds"
      by (auto simp: image_iff)
    then show ?thesis by (simp only: Un_iff) simp
  qed
  finally show ?case .
qed

lemma weekly_empty_lookup: "weekly_empty k = (if k \<in> weekly_keys then Some 0 else None)"
  unfolding weekly_empty_def weekly_keys_def by (rule weekly_fold_lookup)

lemma dom_weekly_empty: "dom weekly_empty = weekly_keys"
  by (auto simp: weekly_empty_lookup dom_def)

lemma weekly_count_dom: "dom (weekly_count w ev d) = dom d"
  by (auto simp: weekly_count_def Let_def split: option.splits)

lemma weekly_count_nonneg:
  "\<forall>k n. d k = Some n \<longrightarrow> 0 \<le> n \<Longrightarrow> \<forall>k n. weekly_count w ev d k = Some n \<longrightarrow> 0 \<le> n"
  by (fastforce simp: weekly_count_def Let_def split: option.splits if_splits)

lemma weekly_fold_dom: "dom (fold (weekly_count w) events d) = dom d"
  by (induction events arbitrary: d) (simp_all add: weekly_count_dom)

lemma weekly_fold_nonneg:
  "\<forall>k n. d k = Some n \<longrightarrow> 0 \<le> n \<Longrightarrow> \<forall>k n. fold (weekly_count w) events d k = Some n \<longrightarrow> 0 \<le> n"
proof (induction events arbitrary: d)
  case Nil
  then show ?case by simp
next
  case (Cons ev events)
  have "\<forall>k n. weekly_count w ev d k = Some n \<longrightarrow> 0 \<le> n"
    using Cons.prems by (rule weekly_count_nonneg)
  then have "\<forall>k n. fold (weekly_count w) events (weekly_count w ev d) k = Some n \<longrightarrow> 0 \<le> n"
    by (rule Cons.IH)
  then show ?case by simp
qed

lemma card_weekly_keys: "card weekly_keys = 56"
proof -
  have len: "\<forall>day \<in> set days. length day = 3" by (simp add: days_def)
  have "inj_on (\<lambda>(day, block). day @ ''_'' @ block) (set days \<times> set timeBlocks)"
  proof (rule inj_onI)
    fix p q
    assume p: "p \<in> set days \<times> set timeBlocks" and q: "q \<in> set days \<times> set timeBlocks"
      and e: "(case p of (day, block) \<Rightarrow> day @ ''_'' @ block) = (case q of (day, block) \<Rightarrow> day @ ''_'' @ block)"
    obtain a b where pp: "p = (a, b)" by (cases p)
    obtain c d where qq: "q = (c, d)" by (cases q)
    have "length a = length c" using p q len pp qq by simp
    then show "p = q" using e pp qq by simp
  qed
  then have "card weekly_keys = card (set days \<times> set timeBlocks)"
    unfolding weekly_keys_def by (rule card_image)
  also have "\<dots> = card (set days) * card (set timeBlocks)" by (rule card_cartesian_product)
  also have "card (set days) = 7" by (simp add: days_def)
  also have "card (set timeBlocks) = 8" by (simp add: timeBlocks_def)
  finally show ?thesis by simp
qed

lemma monthly_empty_nonneg: "\<forall>k n. monthly_empty k = Some n \<longrightarrow> 0 \<le> n"
  by (simp add: monthly_empty_lookup)

lemma weekly_empty_nonneg: "\<forall>k n. weekly_empty k = Some n \<longrightarrow> 0 \<le> n"
  by (simp add: weekly_empty_lookup)

lemma grid_cells:
  fixes g :: grid
  assumes "dom g = K" and "\<forall>k n. g k = Some n \<longrightarrow> 0 \<le> n"
  shows "\<forall>k \<in> K. \<exists>n. g k = Some n \<and> 0 \<le> n"
  using assms by (auto simp: dom_def)

text \<open>
  Claim C6. For every event list, the weekly grid of \<open>buildWeeklyActivityData\<close> has
  exactly the 56 keys \<open>{Mon..Sun} x {00-03..21-24}\<close> and the monthly grid of
  \<open>buildMonthlyActivityData\<close> exactly the 30 keys \<open>day_1..day_30\<close>; every key holds a
  non-negative count, and on the empty list every key holds 0.
\<close>

theorem grids_fixed_keys:
  "dom (buildWeeklyActivityData w events) = weekly_keys \<and> card weekly_keys = 56 \<and>
   (\<forall>k \<in> weekly_keys. \<exists>n. buildWeeklyActivityData w events k = Some n \<and> 0 \<le> n) \<and>
   (\<forall>k \<in> weekly_keys. buildWeeklyActivityData w [] k = Some 0) \<and>
   dom (buildMonthlyActivityData w events) = monthly_keys \<and> card monthly_keys = 30 \<and>
   (\<forall>k \<in> monthly_keys. \<exists>n. buildMonthlyActivityData w events k = Some n \<and> 0 \<le> n) \<and>
   (\<forall>k \<in> monthly_keys. buildMonthlyActivityData w [] k = Some 0)"
proof -
  have wd: "dom (buildWeeklyActivityData w events) = weekly_keys"
    by (simp add: buildWeeklyActivityData_def weekly_fold_dom dom_weekly_empty)
  have wn: "\<forall>k n. buildWeeklyActivityData w events k = Some n \<longrightarrow> 0 \<le> n"
    unfolding buildWeeklyActivityData_def by (rule weekly_fold_nonneg [OF weekly_empty_nonneg])
  have md: "dom (buildMonthlyActivityData w events) = monthly_keys"
    by (simp add: buildMonthlyActivityData_def monthly_fold_dom dom_monthly_empty)
  have mn: "\<forall>k n. buildMonthlyActivityData w events k = Some n \<longrightarrow> 0 \<le> n"
    unfolding buildMonthlyActivityData_def
    using monthly_fold_nonneg [OF monthly_empty_nonneg] by blast
  have w0: "\<forall>k \<in> weekly_keys. buildWeeklyActivityData w [] k = Some 0"
    by (simp add: buildWeeklyActivityData_def weekly_empty_lookup)
  have m0: "\<forall>k \<in> monthly_keys. buildMonthlyActivityData w [] k = Some 0"
    by (simp add: buildMonthlyActivityData_def monthly_empty_lookup)
  show ?thesis
    using wd card_weekly_keys grid_cells [OF wd wn] w0 md card_monthly_keys grid_cells [OF md mn] m0
    by (intro conjI)
qed


theorem grids_fixed_keys_witness:
  "card (dom (buildWeeklyActivityData (utc_world 1700000000000) [\<lparr>timestamp = 1699568000000\<rparr>])) = 56 \<and>
   card (dom (buildMonthlyActivityData (utc_world 1700000000000) [\<lparr>timestamp = 1699568000000\<rparr>])) = 30 \<and>
   (\<exists>n. buildWeeklyActivityData (utc_world 1700000000000) [\<lparr>timestamp = 1699568000000\<rparr>]
          ''Thu_21-24'' = Some n \<and> 0 \<le> n) \<and>
   (\<exists>n. buildMonthlyActivityData (utc_world 1700000000000) [\<lparr>timestamp = 1699568000000\<rparr>]
          ''day_30'' = Some n \<and> 0 \<le> n) \<and>
   buildWeeklyActivityData (utc_world 1700000000000) [] ''Mon_00-03'' = Some 0 \<and>
   buildMonthlyActivityData (utc_world 1700000000000) [] ''day_30'' = Some 0"
proof -
  note T = grids_fixed_keys [where w = "utc_world 1700000000000"]
  have k1: "''Thu_21-24'' \<in> weekly_keys" and k2: "''Mon_00-03'' \<in> weekly_keys"
    by (simp_all add: weekly_keys_def days_def timeBlocks_def image_iff)
  have "day_key 30 = ''day_30''"
    by (simp add: day_key_def show_int_def show_nat.simps digit_char_def)
  then have k3: "''day_30'' \<in> monthly_keys"
    by (metis monthly_keys_mem order_refl one_le_numeral)
  from T [of "[\<lparr>timestamp = 1699568000000\<rparr>]"] k1 k3 T [of "[]"] k2
  show ?thesis by simp
qed

end
